theory Spec2Isabelle
  imports Main "HOL-Library.Multiset"
begin

section \<open>Data model\<close>

text \<open>
  The graph of \<^verbatim>\<open>graph_x86.cc\<close> is a web of arena objects that point at each other.
  Every pointer is an address into a store: \<open>bref\<close> for \<^verbatim>\<open>HBasicBlock*\<close>, \<open>iref\<close> for
  \<^verbatim>\<open>HInstruction*\<close>, \<open>lref\<close> for \<^verbatim>\<open>HLoopInformation*\<close>. A pointer that may be null is an
  \<open>option\<close>. The stores are total: the arena never frees an object, so every non-null
  pointer can be dereferenced, and the only failing dereference is that of a null pointer.

  Modelled from the spec: the \<^verbatim>\<open>DCHECK\<close> macros are defined in the logging header of the
  base runtime, not in this source file. Section 7 of the design: a violated
  precondition is an immediate, non-recoverable assertion failure that aborts the
  compilation unit. So a \<^verbatim>\<open>DCHECK\<close> that fails ends the call with \<open>AssertionFailure\<close>: the
  checks are taken as compiled in. Dereferencing a null pointer ends it with
  \<open>NullDereference\<close>. Both are values: every operation returns \<open>error + graph\<close>.
\<close>

datatype error = AssertionFailure | NullDereference

type_synonym bref = nat
type_synonym iref = nat
type_synonym lref = nat

text \<open>
  \<^verbatim>\<open>HInstruction\<close>: its identity number (\<open>-1\<close> while unassigned), the owning block, the two
  kind tests the editor asks, its operands, its use-list (user, operand index) and its
  environment-use list (the instruction holding the environment, slot index).
\<close>

record HInstruction =
  insn_id :: int
  block :: "bref option"
  is_phi :: bool
  is_control_flow :: bool
  inputs :: "iref list"
  uses :: "(iref \<times> nat) list"
  env_uses :: "(iref \<times> nat) list"

text \<open>
  \<^verbatim>\<open>HLoopInformation\<close>: the header block, the member blocks (a bit vector indexed by block
  id) and the enclosing loop.
\<close>

record HLoopInformation =
  header :: bref
  loop_blocks :: "int set"
  outer :: "lref option"

text \<open>
  \<^verbatim>\<open>HBasicBlock\<close>. The instruction and phi lists are intrusive linked lists in the
  compiler; here they are the sequences of their members.
\<close>

record HBasicBlock =
  block_id :: int
  successors :: "bref list"
  predecessors :: "bref list"
  instructions :: "iref list"
  phis :: "iref list"
  dominator :: "bref option"
  dominated_blocks :: "bref list"
  loop_information :: "lref option"

text \<open>
  \<^verbatim>\<open>HGraph_X86\<close>: the block table \<^verbatim>\<open>blocks_\<close> (indexed by block id, a deleted block leaves
  a null entry), the two orderings, the three stores, and the arena's next free block
  address.
\<close>

record HGraph_X86 =
  blocks :: "bref option list"
  reverse_post_order :: "bref option list"
  linear_order :: "bref option list"
  block_heap :: "bref \<Rightarrow> HBasicBlock"
  insn_heap :: "iref \<Rightarrow> HInstruction"
  loop_heap :: "lref \<Rightarrow> HLoopInformation"
  arena_top :: bref

definition update_block :: "bref \<Rightarrow> (HBasicBlock \<Rightarrow> HBasicBlock) \<Rightarrow> HGraph_X86 \<Rightarrow> HGraph_X86" where
  "update_block b f g = g\<lparr>block_heap := (block_heap g)(b := f (block_heap g b))\<rparr>"

definition update_insn :: "iref \<Rightarrow> (HInstruction \<Rightarrow> HInstruction) \<Rightarrow> HGraph_X86 \<Rightarrow> HGraph_X86" where
  "update_insn i f g = g\<lparr>insn_heap := (insn_heap g)(i := f (insn_heap g i))\<rparr>"

definition update_loop :: "lref \<Rightarrow> (HLoopInformation \<Rightarrow> HLoopInformation) \<Rightarrow> HGraph_X86 \<Rightarrow> HGraph_X86" where
  "update_loop l f g = g\<lparr>loop_heap := (loop_heap g)(l := f (loop_heap g l))\<rparr>"

section \<open>Container helpers of the base compiler\<close>

text \<open>
  Modelled from the spec: the vector helpers \<^verbatim>\<open>IndexOfElement\<close>, \<^verbatim>\<open>RemoveElement\<close> and
  \<^verbatim>\<open>HGraph::MakeRoomFor\<close> are declared in the base compiler's headers, not in this source
  file. Section 7 of the design: locating an element in an ordering is expected to
  succeed, and its absence is an assertion failure. \<open>index_of\<close> is the position of the
  first occurrence.
\<close>

fun index_of :: "'a \<Rightarrow> 'a list \<Rightarrow> nat" where
  "index_of v [] = 0"
| "index_of v (x # xs) = (if x = v then 0 else Suc (index_of v xs))"

definition IndexOfElement :: "'a list \<Rightarrow> 'a \<Rightarrow> error + nat" where
  "IndexOfElement container v =
     (if v \<in> set container then Inr (index_of v container) else Inl AssertionFailure)"

definition RemoveElement :: "'a list \<Rightarrow> 'a \<Rightarrow> error + 'a list" where
  "RemoveElement container v =
     (if v \<in> set container then Inr (remove1 v container) else Inl AssertionFailure)"

text \<open>
  \<^verbatim>\<open>MakeRoomFor(&v, n, after)\<close> grows the vector by \<open>n\<close> null entries and moves the entries
  behind position \<open>after\<close> to the end; the \<open>n\<close> slots behind \<open>after\<close> keep what they held
  (the caller overwrites them).
\<close>

definition MakeRoomFor :: "bref option list \<Rightarrow> nat \<Rightarrow> nat \<Rightarrow> error + bref option list" where
  "MakeRoomFor v n after =
     (if after < length v
      then Inr (take (after + 1 + n) (v @ replicate n None) @ drop (after + 1) v)
      else Inl AssertionFailure)"

text \<open>\<^verbatim>\<open>v[i] = x\<close> on a bounds-checked vector.\<close>

definition put_at :: "'a list \<Rightarrow> nat \<Rightarrow> 'a \<Rightarrow> error + 'a list" where
  "put_at v i x = (if i < length v then Inr (v[i := x]) else Inl AssertionFailure)"

section \<open>Block accessors of the base compiler\<close>

text \<open>
  Modelled from the spec: the one-line members of \<^verbatim>\<open>HBasicBlock\<close> that the editor calls
  (\<^verbatim>\<open>AddSuccessor\<close>, \<^verbatim>\<open>SetDominator\<close>, \<^verbatim>\<open>AddDominatedBlock\<close>, \<^verbatim>\<open>RemovePredecessor\<close>,
  \<^verbatim>\<open>RemoveSuccessor\<close>, \<^verbatim>\<open>ClearAllPredecessors\<close>, \<^verbatim>\<open>IsLoopHeader\<close>) belong to the class
  declaration in \<^verbatim>\<open>nodes.h\<close>, which is not in this source file. \<^verbatim>\<open>AddSuccessor\<close> adds the
  edge on both sides; the removals erase the first occurrence and assert that there is
  one; \<^verbatim>\<open>ClearAllPredecessors\<close> clears the block's own predecessor links (section 4.1,
  step 4).
\<close>

definition AddSuccessor :: "bref \<Rightarrow> bref \<Rightarrow> HGraph_X86 \<Rightarrow> HGraph_X86" where
  "AddSuccessor this b g =
     update_block b (\<lambda>x. x\<lparr>predecessors := predecessors x @ [this]\<rparr>)
       (update_block this (\<lambda>x. x\<lparr>successors := successors x @ [b]\<rparr>) g)"

definition SetDominator :: "bref \<Rightarrow> bref option \<Rightarrow> HGraph_X86 \<Rightarrow> HGraph_X86" where
  "SetDominator this d g = update_block this (\<lambda>x. x\<lparr>dominator := d\<rparr>) g"

definition AddDominatedBlock :: "bref \<Rightarrow> bref \<Rightarrow> HGraph_X86 \<Rightarrow> HGraph_X86" where
  "AddDominatedBlock this b g =
     update_block this (\<lambda>x. x\<lparr>dominated_blocks := dominated_blocks x @ [b]\<rparr>) g"

definition RemovePredecessor :: "bref \<Rightarrow> bref \<Rightarrow> HGraph_X86 \<Rightarrow> error + HGraph_X86" where
  "RemovePredecessor this b g =
     (case RemoveElement (predecessors (block_heap g this)) b of
        Inl e \<Rightarrow> Inl e
      | Inr ps \<Rightarrow> Inr (update_block this (\<lambda>x. x\<lparr>predecessors := ps\<rparr>) g))"

definition RemoveSuccessor :: "bref \<Rightarrow> bref \<Rightarrow> HGraph_X86 \<Rightarrow> error + HGraph_X86" where
  "RemoveSuccessor this b g =
     (case RemoveElement (successors (block_heap g this)) b of
        Inl e \<Rightarrow> Inl e
      | Inr ss \<Rightarrow> Inr (update_block this (\<lambda>x. x\<lparr>successors := ss\<rparr>) g))"

definition ClearAllPredecessors :: "bref \<Rightarrow> HGraph_X86 \<Rightarrow> HGraph_X86" where
  "ClearAllPredecessors this g = update_block this (\<lambda>x. x\<lparr>predecessors := []\<rparr>) g"

definition IsLoopHeader :: "HGraph_X86 \<Rightarrow> bref \<Rightarrow> bool" where
  "IsLoopHeader g b =
     (case loop_information (block_heap g b) of
        None \<Rightarrow> False
      | Some l \<Rightarrow> header (loop_heap g l) = b)"

section \<open>CreateLinkBetweenBlocks\<close>

text \<open>
  \<^verbatim>\<open>HGraph_X86::CreateLinkBetweenBlocks(existing_block, block_being_added,
  add_as_dominator, add_after)\<close>, statement by statement: the edge, the dominance
  link, then the slot in the reverse post order.
\<close>

definition CreateLinkBetweenBlocks ::
  "bref \<Rightarrow> bref \<Rightarrow> bool \<Rightarrow> bool \<Rightarrow> HGraph_X86 \<Rightarrow> error + HGraph_X86" where
  "CreateLinkBetweenBlocks existing_block block_being_added add_as_dominator add_after g =
     (let g1 = (if add_after then AddSuccessor existing_block block_being_added g
                else AddSuccessor block_being_added existing_block g);
          g2 = (if add_as_dominator
                then (if add_after
                      then AddDominatedBlock existing_block block_being_added
                             (SetDominator block_being_added (Some existing_block) g1)
                      else AddDominatedBlock block_being_added existing_block
                             (SetDominator existing_block (Some block_being_added) g1))
                else g1)
      in case IndexOfElement (reverse_post_order g2) (Some existing_block) of
           Inl e \<Rightarrow> Inl e
         | Inr index \<Rightarrow>
             (case MakeRoomFor (reverse_post_order g2) 1 index of
                Inl e \<Rightarrow> Inl e
              | Inr rpo1 \<Rightarrow>
                  if add_after
                  then (case put_at rpo1 (index + 1) (Some block_being_added) of
                          Inl e \<Rightarrow> Inl e
                        | Inr rpo2 \<Rightarrow> Inr (g2\<lparr>reverse_post_order := rpo2\<rparr>))
                  else (case put_at rpo1 index (Some block_being_added) of
                          Inl e \<Rightarrow> Inl e
                        | Inr rpo2 \<Rightarrow>
                            (case put_at rpo2 (index + 1) (Some existing_block) of
                               Inl e \<Rightarrow> Inl e
                             | Inr rpo3 \<Rightarrow> Inr (g2\<lparr>reverse_post_order := rpo3\<rparr>)))))"

section \<open>Dump\<close>

text \<open>
  \<^verbatim>\<open>HGraph_X86::Dump\<close>. The loop reads \<^verbatim>\<open>block->GetBlockId()\<close> and
  \<^verbatim>\<open>block->GetLoopInformation()\<close> of every entry of the block table, with no test for a
  null entry. The pretty printer that follows is an external collaborator (section 6 of
  the design); it is a parameter and taken to return.
\<close>

datatype log_line = BlockInfo int "lref option" | Printed string

fun dump_loop :: "HGraph_X86 \<Rightarrow> bref option list \<Rightarrow> log_line list \<Rightarrow> error + log_line list" where
  "dump_loop g [] log = Inr log"
| "dump_loop g (None # rest) log = Inl NullDereference"
| "dump_loop g (Some b # rest) log =
     dump_loop g rest
       (log @ [BlockInfo (block_id (block_heap g b)) (loop_information (block_heap g b))])"

definition Dump :: "(HGraph_X86 \<Rightarrow> string) \<Rightarrow> HGraph_X86 \<Rightarrow> error + log_line list" where
  "Dump printer g =
     (case dump_loop g (blocks g) [] of
        Inl e \<Rightarrow> Inl e
      | Inr log \<Rightarrow> Inr (log @ [Printed (printer g)]))"

section \<open>DeleteBlock\<close>

text \<open>
  Modelled from the spec: \<^verbatim>\<open>RemoveAsUser\<close> and \<^verbatim>\<open>RemoveFromEnvironmentUsers\<close> are
  declared in \<^verbatim>\<open>ext_utility.h\<close> of this repository, which is not among the source files.
  Section 4.1, step 1: the instruction is detached from all use-lists and
  environment-use lists it participates in. The first takes it out of every use-list,
  the second out of every environment-use list.
\<close>

definition RemoveAsUser :: "iref \<Rightarrow> HGraph_X86 \<Rightarrow> HGraph_X86" where
  "RemoveAsUser insn g =
     g\<lparr>insn_heap := (\<lambda>x. (insn_heap g x)\<lparr>uses := filter (\<lambda>u. fst u \<noteq> insn) (uses (insn_heap g x))\<rparr>)\<rparr>"

definition RemoveFromEnvironmentUsers :: "iref \<Rightarrow> HGraph_X86 \<Rightarrow> HGraph_X86" where
  "RemoveFromEnvironmentUsers insn g =
     g\<lparr>insn_heap :=
         (\<lambda>x. (insn_heap g x)\<lparr>env_uses := filter (\<lambda>u. fst u \<noteq> insn) (env_uses (insn_heap g x))\<rparr>)\<rparr>"

text \<open>
  Modelled from the spec: \<^verbatim>\<open>HBasicBlock::RemovePhi(phi, false)\<close> and
  \<^verbatim>\<open>HBasicBlock::RemoveInstruction(insn, false)\<close> of the base compiler take the
  instruction out of the block's sequence and clear its owning-block reference; they
  assert that the block owns it, and \<^verbatim>\<open>RemoveInstruction\<close> that it is no phi. \<^verbatim>\<open>AsPhi\<close> is
  the checked downcast: null for an instruction that is no phi.
\<close>

definition AsPhi :: "HGraph_X86 \<Rightarrow> iref \<Rightarrow> iref option" where
  "AsPhi g insn = (if is_phi (insn_heap g insn) then Some insn else None)"

definition RemovePhi :: "bref \<Rightarrow> iref option \<Rightarrow> HGraph_X86 \<Rightarrow> error + HGraph_X86" where
  "RemovePhi this phi g =
     (case phi of
        None \<Rightarrow> Inl NullDereference
      | Some p \<Rightarrow>
          if block (insn_heap g p) \<noteq> Some this then Inl AssertionFailure
          else Inr (update_block this (\<lambda>x. x\<lparr>phis := remove1 p (phis x)\<rparr>)
                      (update_insn p (\<lambda>i. i\<lparr>block := None\<rparr>) g)))"

definition RemoveInstruction :: "bref \<Rightarrow> iref \<Rightarrow> HGraph_X86 \<Rightarrow> error + HGraph_X86" where
  "RemoveInstruction this insn g =
     (if is_phi (insn_heap g insn) then Inl AssertionFailure
      else if block (insn_heap g insn) \<noteq> Some this then Inl AssertionFailure
      else Inr (update_block this (\<lambda>x. x\<lparr>instructions := remove1 insn (instructions x)\<rparr>)
                  (update_insn insn (\<lambda>i. i\<lparr>block := None\<rparr>) g)))"

text \<open>
  The two instruction loops of \<^verbatim>\<open>DeleteBlock\<close>. Modelled from the spec:
  \<^verbatim>\<open>HInstructionIterator\<close> belongs to the base compiler. Section 4.1: every phi, then
  every instruction of the block is visited. The iterator reads the successor of the
  current instruction before the body runs, so removing the current instruction does
  not disturb the walk: the loop visits the members the list had when it started.
\<close>

fun remove_phis_loop :: "bref \<Rightarrow> iref list \<Rightarrow> HGraph_X86 \<Rightarrow> error + HGraph_X86" where
  "remove_phis_loop b [] g = Inr g"
| "remove_phis_loop b (insn # rest) g =
     (let g1 = RemoveFromEnvironmentUsers insn (RemoveAsUser insn g) in
      case RemovePhi b (AsPhi g1 insn) g1 of
        Inl e \<Rightarrow> Inl e
      | Inr g2 \<Rightarrow> remove_phis_loop b rest g2)"

fun remove_instructions_loop :: "bref \<Rightarrow> iref list \<Rightarrow> HGraph_X86 \<Rightarrow> error + HGraph_X86" where
  "remove_instructions_loop b [] g = Inr g"
| "remove_instructions_loop b (insn # rest) g =
     (let g1 = RemoveFromEnvironmentUsers insn (RemoveAsUser insn g) in
      case RemoveInstruction b insn g1 of
        Inl e \<Rightarrow> Inl e
      | Inr g2 \<Rightarrow> remove_instructions_loop b rest g2)"

text \<open>
  The successor loop: \<^verbatim>\<open>for (size_t j = successors.size(); j > 0; j--)\<close>, where
  \<^verbatim>\<open>successors\<close> is a reference to the block's own vector, so each turn reads the vector as
  the turns before left it. The argument \<open>Suc j\<close> is the source's \<open>j\<close>; the read
  \<^verbatim>\<open>successors[j - 1]\<close> is bounds-checked.
\<close>

fun remove_successors_loop :: "nat \<Rightarrow> bref \<Rightarrow> HGraph_X86 \<Rightarrow> error + HGraph_X86" where
  "remove_successors_loop 0 b g = Inr g"
| "remove_successors_loop (Suc j) b g =
     (if j < length (successors (block_heap g b))
      then (let successor = successors (block_heap g b) ! j in
            case (if b \<in> set (predecessors (block_heap g successor))
                  then RemovePredecessor successor b g else Inr g) of
              Inl e \<Rightarrow> Inl e
            | Inr g1 \<Rightarrow>
                (case RemoveSuccessor b successor g1 of
                   Inl e \<Rightarrow> Inl e
                 | Inr g2 \<Rightarrow> remove_successors_loop j b g2))
      else Inl AssertionFailure)"

text \<open>\<^verbatim>\<open>blocks_[id] = nullptr\<close> on the bounds-checked block table.\<close>

definition clear_block_entry :: "bref option list \<Rightarrow> int \<Rightarrow> error + bref option list" where
  "clear_block_entry table n = (if 0 \<le> n then put_at table (nat n) None else Inl AssertionFailure)"

definition DeleteBlock :: "bref \<Rightarrow> HGraph_X86 \<Rightarrow> error + HGraph_X86" where
  "DeleteBlock b g =
     (case remove_phis_loop b (phis (block_heap g b)) g of
        Inl e \<Rightarrow> Inl e
      | Inr g1 \<Rightarrow>
     (case remove_instructions_loop b (instructions (block_heap g1 b)) g1 of
        Inl e \<Rightarrow> Inl e
      | Inr g2 \<Rightarrow>
     (case remove_successors_loop (length (successors (block_heap g2 b))) b g2 of
        Inl e \<Rightarrow> Inl e
      | Inr g3 \<Rightarrow>
     (let g4 = ClearAllPredecessors b g3 in
      case clear_block_entry (blocks g4) (block_id (block_heap g4 b)) of
        Inl e \<Rightarrow> Inl e
      | Inr table \<Rightarrow>
     (case RemoveElement (reverse_post_order g4) (Some b) of
        Inl e \<Rightarrow> Inl e
      | Inr rpo \<Rightarrow>
          if length (linear_order g4) > 0
          then (case RemoveElement (linear_order g4) (Some b) of
                  Inl e \<Rightarrow> Inl e
                | Inr lin \<Rightarrow>
                    Inr (g4\<lparr>blocks := table, reverse_post_order := rpo, linear_order := lin\<rparr>))
          else Inr (g4\<lparr>blocks := table, reverse_post_order := rpo\<rparr>))))))"

text \<open>A sequence of deletions stops at the first one that aborts.\<close>

fun DeleteBlocks :: "bref list \<Rightarrow> HGraph_X86 \<Rightarrow> error + HGraph_X86" where
  "DeleteBlocks [] g = Inr g"
| "DeleteBlocks (b # bs) g =
     (case DeleteBlock b g of Inl e \<Rightarrow> Inl e | Inr g1 \<Rightarrow> DeleteBlocks bs g1)"

section \<open>SplitCriticalEdgeAndUpdateLoopInformation\<close>

text \<open>
  Modelled from the spec: \<^verbatim>\<open>HGraph::SplitCriticalEdge\<close> belongs to the base compiler and is
  not in this source file. Section 4.3: the generic edge split detaches \<open>from \<rightarrow> to\<close> and
  inserts a splitter with \<open>from \<rightarrow> splitter \<rightarrow> to\<close>, preserving the relative order of the
  other predecessors of \<open>to\<close>. The splitter is a new arena block appended to the block
  table; it takes the slot of \<open>to\<close> among the successors of \<open>from\<close> and the slot of \<open>from\<close>
  among the predecessors of \<open>to\<close>.
\<close>

definition SplitCriticalEdge :: "bref \<Rightarrow> bref \<Rightarrow> HGraph_X86 \<Rightarrow> error + HGraph_X86" where
  "SplitCriticalEdge from to g =
     (case IndexOfElement (predecessors (block_heap g to)) from of
        Inl e \<Rightarrow> Inl e
      | Inr pi \<Rightarrow>
     (case IndexOfElement (successors (block_heap g from)) to of
        Inl e \<Rightarrow> Inl e
      | Inr si \<Rightarrow>
          (let splitter = arena_top g;
               g1 = g\<lparr>blocks := blocks g @ [Some splitter],
                      block_heap := (block_heap g)(splitter :=
                        \<lparr>block_id = int (length (blocks g)), successors = [to],
                         predecessors = [from], instructions = [], phis = [],
                         dominator = None, dominated_blocks = [], loop_information = None\<rparr>),
                      arena_top := Suc splitter\<rparr>;
               g2 = update_block from (\<lambda>x. x\<lparr>successors := (successors x)[si := splitter]\<rparr>) g1
           in Inr (update_block to (\<lambda>x. x\<lparr>predecessors := (predecessors x)[pi := splitter]\<rparr>) g2))))"

text \<open>
  Modelled from the spec: \<^verbatim>\<open>HLoopInformation_X86::AddToAll\<close> is declared in
  \<^verbatim>\<open>loop_information.h\<close> of this repository, which is not among the source files.
  Section 4.3: the block is registered as a member of every loop in the nesting chain,
  innermost to outermost. The walk follows the links to the enclosing loop and does not
  return on a chain that never ends (\<open>None\<close>).
\<close>

partial_function (option) AddToAll :: "lref \<Rightarrow> bref \<Rightarrow> HGraph_X86 \<Rightarrow> HGraph_X86 option" where
  "AddToAll l b g =
     (let g1 = update_loop l (\<lambda>x. x\<lparr>loop_blocks := insert (block_id (block_heap g b)) (loop_blocks x)\<rparr>) g
      in case outer (loop_heap g1 l) of
           None \<Rightarrow> Some g1
         | Some p \<Rightarrow> AddToAll p b g1)"

text \<open>
  \<^verbatim>\<open>HGraph_X86::SplitCriticalEdgeAndUpdateLoopInformation(from, to)\<close>. The result is
  \<open>None\<close> when the call does not return, \<open>Some (Inl e)\<close> when it aborts.
\<close>

definition SplitCriticalEdgeAndUpdateLoopInformation ::
  "bref \<Rightarrow> bref \<Rightarrow> HGraph_X86 \<Rightarrow> (error + HGraph_X86) option" where
  "SplitCriticalEdgeAndUpdateLoopInformation from to g =
     (case IndexOfElement (predecessors (block_heap g to)) from of
        Inl e \<Rightarrow> Some (Inl e)
      | Inr index \<Rightarrow>
     (case SplitCriticalEdge from to g of
        Inl e \<Rightarrow> Some (Inl e)
      | Inr g1 \<Rightarrow>
          if index < length (predecessors (block_heap g1 to))
          then (let splitter = predecessors (block_heap g1 to) ! index;
                    loop_info = (if IsLoopHeader g1 to
                                 then loop_information (block_heap g1 from)
                                 else loop_information (block_heap g1 to))
                in case loop_info of
                     None \<Rightarrow> Some (Inr g1)
                   | Some l \<Rightarrow> map_option Inr (AddToAll l splitter g1))
          else Some (Inl AssertionFailure)))"

section \<open>MovePhi and MoveInstructionBefore\<close>

text \<open>
  Modelled from the spec: \<^verbatim>\<open>HInstructionList::InsertInstructionBefore\<close> of the base
  compiler puts the instruction immediately before the cursor (section 4.5) and asserts
  that the list contains the cursor. \<^verbatim>\<open>HInstructionList::RemoveInstruction\<close> is \<open>remove1\<close>,
  \<^verbatim>\<open>HInstructionList::AddInstruction\<close> appends.
\<close>

fun insert_before :: "iref \<Rightarrow> iref \<Rightarrow> iref list \<Rightarrow> iref list" where
  "insert_before i c [] = []"
| "insert_before i c (x # xs) = (if x = c then i # x # xs else x # insert_before i c xs)"

definition InsertInstructionBefore :: "iref list \<Rightarrow> iref \<Rightarrow> iref \<Rightarrow> error + iref list" where
  "InsertInstructionBefore xs i c =
     (if c \<in> set xs then Inr (insert_before i c xs) else Inl AssertionFailure)"

text \<open>\<^verbatim>\<open>HGraph_X86::MovePhi(phi, to_block)\<close>.\<close>

definition MovePhi :: "iref option \<Rightarrow> bref \<Rightarrow> HGraph_X86 \<Rightarrow> error + HGraph_X86" where
  "MovePhi phi to_block g =
     (case phi of
        None \<Rightarrow> Inl AssertionFailure
      | Some p \<Rightarrow>
          (let from_block = block (insn_heap g p) in
           if from_block \<noteq> Some to_block
           then (case from_block of
                   None \<Rightarrow> Inl NullDereference
                 | Some f \<Rightarrow>
                     (let g1 = update_block f (\<lambda>x. x\<lparr>phis := remove1 p (phis x)\<rparr>) g;
                          g2 = update_block to_block (\<lambda>x. x\<lparr>phis := phis x @ [p]\<rparr>) g1
                      in Inr (update_insn p (\<lambda>i. i\<lparr>block := Some to_block\<rparr>) g2)))
           else Inr g))"

text \<open>
  \<^verbatim>\<open>HGraph_X86::MoveInstructionBefore(instr, cursor)\<close>, check by check in the order of
  the source: the three checks on the identity numbers and on control flow come after
  the instruction has left its block.
\<close>

definition MoveInstructionBefore ::
  "iref option \<Rightarrow> iref option \<Rightarrow> HGraph_X86 \<Rightarrow> error + HGraph_X86" where
  "MoveInstructionBefore instr cursor g =
     (case instr of
        None \<Rightarrow> Inl AssertionFailure
      | Some i \<Rightarrow>
     (let from_block = block (insn_heap g i) in
      case cursor of
        None \<Rightarrow> Inl AssertionFailure
      | Some c \<Rightarrow>
          if is_phi (insn_heap g c) then Inl AssertionFailure
          else (let to_block = block (insn_heap g c) in
                if from_block = to_block then Inl AssertionFailure
                else (case from_block of
                        None \<Rightarrow> Inl NullDereference
                      | Some f \<Rightarrow>
                     (case RemoveInstruction f i g of
                        Inl e \<Rightarrow> Inl e
                      | Inr g1 \<Rightarrow>
                          if insn_id (insn_heap g1 i) = - 1 then Inl AssertionFailure
                          else if insn_id (insn_heap g1 c) = - 1 then Inl AssertionFailure
                          else if is_control_flow (insn_heap g1 i) then Inl AssertionFailure
                          else (let g2 = update_insn i (\<lambda>x. x\<lparr>block := to_block\<rparr>) g1 in
                                case to_block of
                                  None \<Rightarrow> Inl NullDereference
                                | Some t \<Rightarrow>
                                    (case InsertInstructionBefore (instructions (block_heap g2 t)) i c of
                                       Inl e \<Rightarrow> Inl e
                                     | Inr xs \<Rightarrow>
                                         Inr (update_block t (\<lambda>x. x\<lparr>instructions := xs\<rparr>) g2))))))))"

section \<open>Predicates of the statements\<close>

text \<open>
  The blocks of the graph are the non-null entries of the block table. The table is in
  order when every entry sits at the index of its block id, and the reverse post order
  when it lists blocks of the table, each once (section 3 of the design).
\<close>

definition live :: "HGraph_X86 \<Rightarrow> bref set" where
  "live g = Option.these (set (blocks g))"

definition table_ok :: "HGraph_X86 \<Rightarrow> bool" where
  "table_ok g \<longleftrightarrow>
     (\<forall>i<length (blocks g).
        case blocks g ! i of None \<Rightarrow> True | Some b \<Rightarrow> block_id (block_heap g b) = int i)"

definition rpo_ok :: "HGraph_X86 \<Rightarrow> bool" where
  "rpo_ok g \<longleftrightarrow>
     distinct (reverse_post_order g) \<and>
     (\<forall>x\<in>set (reverse_post_order g). x \<noteq> None \<and> x \<in> set (blocks g))"

text \<open>
  Mutual linkage of the blocks of the graph: as the design states it (\<open>B\<close> is listed by \<open>A\<close>
  iff \<open>A\<close> is listed by \<open>B\<close>), and with multiplicity (every edge is listed as often on
  both sides, which is what \<^verbatim>\<open>AddSuccessor\<close> builds).
\<close>

definition mutually_linked :: "HGraph_X86 \<Rightarrow> bool" where
  "mutually_linked g \<longleftrightarrow>
     (\<forall>A\<in>live g. \<forall>B\<in>live g.
        (B \<in> set (successors (block_heap g A))) = (A \<in> set (predecessors (block_heap g B))))"

definition linkage_consistent :: "HGraph_X86 \<Rightarrow> bool" where
  "linkage_consistent g \<longleftrightarrow>
     (\<forall>A\<in>live g. \<forall>B\<in>live g.
        count_list (successors (block_heap g A)) B = count_list (predecessors (block_heap g B)) A)"

text \<open>
  The instruction store after the instructions \<open>xs\<close> have been taken out of their block
  and detached: their owning-block reference is null and no use-list or
  environment-use list has an entry of theirs.
\<close>

definition detach_all :: "iref list \<Rightarrow> (iref \<Rightarrow> HInstruction) \<Rightarrow> iref \<Rightarrow> HInstruction" where
  "detach_all xs h x =
     (h x)\<lparr>block := (if x \<in> set xs then None else block (h x)),
           uses := filter (\<lambda>u. fst u \<notin> set xs) (uses (h x)),
           env_uses := filter (\<lambda>u. fst u \<notin> set xs) (env_uses (h x))\<rparr>"

definition same_frame :: "HGraph_X86 \<Rightarrow> HGraph_X86 \<Rightarrow> bool" where
  "same_frame g g' \<longleftrightarrow>
     blocks g' = blocks g \<and> reverse_post_order g' = reverse_post_order g \<and>
     linear_order g' = linear_order g \<and> loop_heap g' = loop_heap g \<and>
     arena_top g' = arena_top g"

text \<open>
  The nesting chain of a loop, innermost to outermost, read along the links to the
  enclosing loop with \<open>n\<close> steps of fuel: \<open>Some ls\<close> when the chain ends within \<open>n\<close> loops.
\<close>

fun nest_chain :: "nat \<Rightarrow> (lref \<Rightarrow> HLoopInformation) \<Rightarrow> lref \<Rightarrow> lref list option" where
  "nest_chain 0 H l = None"
| "nest_chain (Suc n) H l =
     (case outer (H l) of
        None \<Rightarrow> Some [l]
      | Some p \<Rightarrow> map_option ((#) l) (nest_chain n H p))"

text \<open>
  The malformed inputs of \<^verbatim>\<open>MoveInstructionBefore\<close> that section 4.5 of the design lists:
  a null instruction or cursor, a phi as cursor, a control-flow instruction to move, an
  unassigned identity number (\<open>-1\<close>), the same block on both sides.
\<close>

definition malformed_move :: "HGraph_X86 \<Rightarrow> iref option \<Rightarrow> iref option \<Rightarrow> bool" where
  "malformed_move g instr cursor =
     (case instr of
        None \<Rightarrow> True
      | Some i \<Rightarrow>
          (case cursor of
             None \<Rightarrow> True
           | Some c \<Rightarrow>
               is_phi (insn_heap g c) \<or> is_control_flow (insn_heap g i) \<or>
               insn_id (insn_heap g i) = - 1 \<or> insn_id (insn_heap g c) = - 1 \<or>
               block (insn_heap g i) = block (insn_heap g c)))"

section \<open>Example graphs\<close>

definition empty_block :: "int \<Rightarrow> HBasicBlock" where
  "empty_block n =
     \<lparr>block_id = n, successors = [], predecessors = [], instructions = [], phis = [],
      dominator = None, dominated_blocks = [], loop_information = None\<rparr>"

definition plain_insn :: "int \<Rightarrow> bref option \<Rightarrow> HInstruction" where
  "plain_insn n b =
     \<lparr>insn_id = n, block = b, is_phi = False, is_control_flow = False, inputs = [],
      uses = [], env_uses = []\<rparr>"

definition no_loop :: HLoopInformation where
  "no_loop = \<lparr>header = 0, loop_blocks = {}, outer = None\<rparr>"

text \<open>
  \<open>graph_EF\<close>: the blocks \<open>E = 0\<close> and \<open>F = 1\<close> in reverse post order, and a block \<open>N = 2\<close>
  that is not linked yet.
\<close>

definition graph_EF :: HGraph_X86 where
  "graph_EF =
     \<lparr>blocks = [Some 0, Some 1, Some 2],
      reverse_post_order = [Some 0, Some 1],
      linear_order = [],
      block_heap = (\<lambda>a. empty_block (int a)),
      insn_heap = (\<lambda>i. plain_insn (int i) None),
      loop_heap = (\<lambda>l. no_loop),
      arena_top = 3\<rparr>"

text \<open>
  \<open>graph_chain\<close>: the chain \<open>0 \<rightarrow> 1 \<rightarrow> 2\<close>. Block 1 holds the phi 10 and the instructions
  11 and 12; instruction 20 of block 0 is an operand of 10 and 11 and is held by the
  environment of 12.
\<close>

definition graph_chain :: HGraph_X86 where
  "graph_chain =
     \<lparr>blocks = [Some 0, Some 1, Some 2],
      reverse_post_order = [Some 0, Some 1, Some 2],
      linear_order = [Some 0, Some 1, Some 2],
      block_heap = (\<lambda>a. empty_block (int a))
        (0 := (empty_block 0)\<lparr>successors := [1], instructions := [20]\<rparr>,
         1 := (empty_block 1)\<lparr>successors := [2], predecessors := [0],
                               phis := [10], instructions := [11, 12]\<rparr>,
         2 := (empty_block 2)\<lparr>predecessors := [1]\<rparr>),
      insn_heap = (\<lambda>i. plain_insn (int i) None)
        (10 := (plain_insn 10 (Some 1))\<lparr>is_phi := True, inputs := [20], uses := [(11, 1)]\<rparr>,
         11 := (plain_insn 11 (Some 1))\<lparr>inputs := [20, 10]\<rparr>,
         12 := (plain_insn 12 (Some 1)),
         20 := (plain_insn 20 (Some 0))\<lparr>uses := [(10, 0), (11, 0)], env_uses := [(12, 0)]\<rparr>),
      loop_heap = (\<lambda>l. no_loop),
      arena_top = 3\<rparr>"

text \<open>
  \<open>graph_loops\<close>: the blocks 10 to 14 with the ids 0 to 4, an outer loop 20 with header
  block 11 and an inner loop 21 with header block 12. Block 10 is the pre-header;
  blocks 13 and 14 are in the inner loop; block 13 closes both loops.
\<close>

definition graph_loops :: HGraph_X86 where
  "graph_loops =
     \<lparr>blocks = [Some 10, Some 11, Some 12, Some 13, Some 14],
      reverse_post_order = [Some 10, Some 11, Some 12, Some 14, Some 13],
      linear_order = [],
      block_heap = (\<lambda>a. empty_block (- 1))
        (10 := (empty_block 0)\<lparr>successors := [11]\<rparr>,
         11 := (empty_block 1)\<lparr>predecessors := [10, 13], successors := [12],
                                loop_information := Some 20\<rparr>,
         12 := (empty_block 2)\<lparr>predecessors := [11, 13], successors := [13, 14],
                                loop_information := Some 21\<rparr>,
         13 := (empty_block 3)\<lparr>predecessors := [12, 14], successors := [12, 11],
                                loop_information := Some 21\<rparr>,
         14 := (empty_block 4)\<lparr>predecessors := [12], successors := [13],
                                loop_information := Some 21\<rparr>),
      insn_heap = (\<lambda>i. plain_insn (- 1) None),
      loop_heap = (\<lambda>l. no_loop)
        (20 := \<lparr>header = 11, loop_blocks = {1, 2, 3, 4}, outer = None\<rparr>,
         21 := \<lparr>header = 12, loop_blocks = {2, 3, 4}, outer = Some 20\<rparr>),
      arena_top = 15\<rparr>"

text \<open>
  \<open>graph_XY\<close>: block \<open>X = 7\<close> holds the instructions \<open>a = 11\<close> and \<open>b = 12\<close> and the phi
  15, block \<open>Y = 8\<close> holds \<open>c = 13\<close> and \<open>d = 14\<close>; \<open>b\<close> uses \<open>a\<close>, and \<open>c\<close> uses the phi.
  Block 9 holds instruction 16, which is control flow. Instruction 17 is under
  construction: it has no identity number and no block yet.
\<close>

definition graph_XY :: HGraph_X86 where
  "graph_XY =
     \<lparr>blocks = [Some 7, Some 8, Some 9],
      reverse_post_order = [Some 7, Some 8, Some 9],
      linear_order = [],
      block_heap = (\<lambda>a. empty_block (- 1))
        (7 := (empty_block 0)\<lparr>successors := [8], instructions := [11, 12], phis := [15]\<rparr>,
         8 := (empty_block 1)\<lparr>predecessors := [7], successors := [9],
                               instructions := [13, 14]\<rparr>,
         9 := (empty_block 2)\<lparr>predecessors := [8], instructions := [16]\<rparr>),
      insn_heap = (\<lambda>i. plain_insn (- 1) None)
        (11 := (plain_insn 11 (Some 7))\<lparr>uses := [(12, 0)]\<rparr>,
         12 := (plain_insn 12 (Some 7))\<lparr>inputs := [11]\<rparr>,
         13 := (plain_insn 13 (Some 8))\<lparr>inputs := [15]\<rparr>,
         14 := plain_insn 14 (Some 8),
         15 := (plain_insn 15 (Some 7))\<lparr>is_phi := True, uses := [(13, 0)]\<rparr>,
         16 := (plain_insn 16 (Some 9))\<lparr>is_control_flow := True\<rparr>),
      loop_heap = (\<lambda>l. no_loop),
      arena_top = 10\<rparr>"

section \<open>Lemmas on the container helpers\<close>

lemma index_of_append: "v \<notin> set xs \<Longrightarrow> index_of v (xs @ v # ys) = length xs"
  by (induction xs) auto

lemma index_of_less: "v \<in> set xs \<Longrightarrow> index_of v xs < length xs"
  by (induction xs) auto

lemma index_of_nth: "v \<in> set xs \<Longrightarrow> xs ! index_of v xs = v"
  by (induction xs) auto

lemma foldl_remove1_mset: "mset (foldl (\<lambda>l x. remove1 x l) ys xs) = mset ys - mset xs"
  by (induction xs arbitrary: ys) (simp_all add: diff_diff_add_mset)

lemma foldl_remove1_self: "foldl (\<lambda>l x. remove1 x l) xs xs = []"
  using foldl_remove1_mset [of xs xs] by simp

lemma in_set_count: "a \<in> set xs \<longleftrightarrow> count_list xs a \<noteq> 0"
  by (simp add: count_list_0_iff)

lemma live_iff: "b \<in> live g \<longleftrightarrow> Some b \<in> set (blocks g)"
  by (simp add: live_def in_these_eq)

section \<open>DeleteBlock: what a call that returns has done\<close>

lemma detach_all_Nil: "detach_all [] h = h"
  by (rule ext) (simp add: detach_all_def)

lemma filter_notin_Cons:
  "filter (\<lambda>u. fst u \<notin> set rest) (filter (\<lambda>u. fst u \<noteq> i) us) = filter (\<lambda>u. fst u \<noteq> i \<and> fst u \<notin> set rest) us"
  by (induction us) auto

lemma detach_all_Cons:
  "detach_all rest (detach_all [i] h) = detach_all (i # rest) h"
  by (rule ext) (auto simp: detach_all_def filter_notin_Cons)

lemma remove_phi_step:
  assumes "RemovePhi b (AsPhi g1 i) g1 = Inr g2"
      and "g1 = RemoveFromEnvironmentUsers i (RemoveAsUser i g)"
  shows "is_phi (insn_heap g i)" "block (insn_heap g i) = Some b" "same_frame g g2"
    "block_heap g2 = (block_heap g)(b := (block_heap g b)\<lparr>phis := remove1 i (phis (block_heap g b))\<rparr>)"
    "insn_heap g2 = detach_all [i] (insn_heap g)"
  using assms
  by (auto simp: RemovePhi_def AsPhi_def RemoveFromEnvironmentUsers_def RemoveAsUser_def
        update_block_def update_insn_def detach_all_def fun_eq_iff same_frame_def
        split: option.splits if_splits)

lemma remove_phis_loop_result:
  "remove_phis_loop b xs g = Inr g' \<Longrightarrow>
     same_frame g g' \<and>
     block_heap g' = (block_heap g)(b := (block_heap g b)\<lparr>phis := foldl (\<lambda>l x. remove1 x l) (phis (block_heap g b)) xs\<rparr>) \<and>
     insn_heap g' = detach_all xs (insn_heap g) \<and>
     distinct xs \<and> (\<forall>x\<in>set xs. block (insn_heap g x) = Some b \<and> is_phi (insn_heap g x))"
proof (induction xs arbitrary: g)
  case Nil
  then show ?case by (simp add: detach_all_Nil same_frame_def)
next
  case (Cons i rest)
  let ?g1 = "RemoveFromEnvironmentUsers i (RemoveAsUser i g)"
  from Cons.prems obtain g2 where
    r: "RemovePhi b (AsPhi ?g1 i) ?g1 = Inr g2" and l: "remove_phis_loop b rest g2 = Inr g'"
    by (auto simp: Let_def split: sum.splits)
  note s = remove_phi_step [OF r refl]
  from Cons.IH [OF l] have ih: "same_frame g2 g'"
    "block_heap g' = (block_heap g2)(b := (block_heap g2 b)\<lparr>phis := foldl (\<lambda>l x. remove1 x l) (phis (block_heap g2 b)) rest\<rparr>)"
    "insn_heap g' = detach_all rest (insn_heap g2)" 
     and d: "distinct rest" and o: "\<forall>x\<in>set rest. block (insn_heap g2 x) = Some b \<and> is_phi (insn_heap g2 x)"
    by blast+
  have nin: "i \<notin> set rest"
    using o s(5) by (auto simp: detach_all_def)
  have "\<forall>x\<in>set rest. block (insn_heap g x) = Some b \<and> is_phi (insn_heap g x)"
    using o s(5) nin by (auto simp: detach_all_def split: if_splits)
  with d nin ih s show ?case
    by (simp add: detach_all_Cons same_frame_def)
qed

lemma detach_all_append:
  "detach_all ys (detach_all xs h) = detach_all (xs @ ys) h"
  by (rule ext) (auto simp: detach_all_def intro: filter_cong)

lemma remove_instruction_step:
  assumes "RemoveInstruction b i g1 = Inr g2"
      and "g1 = RemoveFromEnvironmentUsers i (RemoveAsUser i g)"
  shows "\<not> is_phi (insn_heap g i)" "block (insn_heap g i) = Some b" "same_frame g g2"
    "block_heap g2 = (block_heap g)(b := (block_heap g b)\<lparr>instructions := remove1 i (instructions (block_heap g b))\<rparr>)"
    "insn_heap g2 = detach_all [i] (insn_heap g)"
  using assms
  by (auto simp: RemoveInstruction_def RemoveFromEnvironmentUsers_def RemoveAsUser_def
        update_block_def update_insn_def detach_all_def fun_eq_iff same_frame_def
        split: option.splits if_splits)

lemma remove_instructions_loop_result:
  "remove_instructions_loop b xs g = Inr g' \<Longrightarrow>
     same_frame g g' \<and>
     block_heap g' = (block_heap g)(b := (block_heap g b)\<lparr>instructions := foldl (\<lambda>l x. remove1 x l) (instructions (block_heap g b)) xs\<rparr>) \<and>
     insn_heap g' = detach_all xs (insn_heap g) \<and>
     distinct xs \<and> (\<forall>x\<in>set xs. block (insn_heap g x) = Some b \<and> \<not> is_phi (insn_heap g x))"
proof (induction xs arbitrary: g)
  case Nil
  then show ?case by (simp add: detach_all_Nil same_frame_def)
next
  case (Cons i rest)
  let ?g1 = "RemoveFromEnvironmentUsers i (RemoveAsUser i g)"
  from Cons.prems obtain g2 where
    r: "RemoveInstruction b i ?g1 = Inr g2" and l: "remove_instructions_loop b rest g2 = Inr g'"
    by (auto simp: Let_def split: sum.splits)
  note s = remove_instruction_step [OF r refl]
  from Cons.IH [OF l] have ih: "same_frame g2 g'"
    "block_heap g' = (block_heap g2)(b := (block_heap g2 b)\<lparr>instructions := foldl (\<lambda>l x. remove1 x l) (instructions (block_heap g2 b)) rest\<rparr>)"
    "insn_heap g' = detach_all rest (insn_heap g2)" 
     and d: "distinct rest" and o: "\<forall>x\<in>set rest. block (insn_heap g2 x) = Some b \<and> \<not> is_phi (insn_heap g2 x)"
    by blast+
  have nin: "i \<notin> set rest"
    using o s(5) by (auto simp: detach_all_def)
  have "\<forall>x\<in>set rest. block (insn_heap g x) = Some b \<and> \<not> is_phi (insn_heap g x)"
    using o s(5) nin by (auto simp: detach_all_def split: if_splits)
  with d nin ih s show ?case
    by (simp add: detach_all_Cons same_frame_def)
qed

lemma remove_successors_loop_result:
  "n = length (successors (block_heap g b)) \<Longrightarrow>
   \<exists>g' P. remove_successors_loop n b g = Inr g' \<and> same_frame g g' \<and> insn_heap g' = insn_heap g \<and>
     block_heap g' = (\<lambda>x. (block_heap g x)\<lparr>successors := (if x = b then [] else successors (block_heap g x)),
                                              predecessors := P x\<rparr>) \<and>
     (\<forall>x. mset (P x) =
           mset (predecessors (block_heap g x)) - replicate_mset (count (mset (successors (block_heap g b))) x) b)"
proof (induction n arbitrary: g)
  case 0
  then show ?case 
    by (intro exI [of _ g] exI [of _ "\<lambda>x. predecessors (block_heap g x)"]) (auto simp: same_frame_def)
next
  case (Suc j)
  let ?ss = "successors (block_heap g b)"
  let ?S = "?ss ! j"
  have len: "length ?ss = Suc j" using Suc.prems by simp
  hence Sin: "?S \<in> set ?ss" by simp
  define g1 where "g1 = (if b \<in> set (predecessors (block_heap g ?S))
      then update_block ?S (\<lambda>x. x\<lparr>predecessors := remove1 b (predecessors x)\<rparr>) g else g)"
  define g2 where "g2 = update_block b (\<lambda>x. x\<lparr>successors := remove1 ?S (successors x)\<rparr>) g1"
  have ssg1: "successors (block_heap g1 b) = ?ss"
    by (simp add: g1_def update_block_def)
  have a1: "(if b \<in> set (predecessors (block_heap g ?S)) then RemovePredecessor ?S b g else Inr g) = Inr g1"
    by (simp add: RemovePredecessor_def RemoveElement_def g1_def update_block_def)
  have a2: "RemoveSuccessor b ?S g1 = Inr g2"
    using Sin by (simp add: RemoveSuccessor_def RemoveElement_def g2_def ssg1 update_block_def)
  have step: "remove_successors_loop (Suc j) b g = remove_successors_loop j b g2"
    using len by (simp add: Let_def a1 a2)
  have ss2: "successors (block_heap g2 b) = remove1 ?S ?ss"
    by (simp add: g2_def update_block_def ssg1)
  have "j = length (successors (block_heap g2 b))"
    using len Sin by (simp add: ss2 length_remove1)
  from Suc.IH [OF this] obtain g' P where
    r: "remove_successors_loop j b g2 = Inr g'" and f: "same_frame g2 g'" and i: "insn_heap g' = insn_heap g2"
    and bh: "block_heap g' = (\<lambda>x. (block_heap g2 x)\<lparr>successors := (if x = b then [] else successors (block_heap g2 x)),
                                              predecessors := P x\<rparr>)"
    and ms: "\<forall>x. mset (P x) =
           mset (predecessors (block_heap g2 x)) - replicate_mset (count (mset (successors (block_heap g2 b))) x) b"
    by blast
  have f2: "same_frame g g2" "insn_heap g2 = insn_heap g"
    by (simp_all add: same_frame_def g2_def g1_def update_block_def)
  have bh2: "block_heap g' = (\<lambda>x. (block_heap g x)\<lparr>successors := (if x = b then [] else successors (block_heap g x)),
                                              predecessors := P x\<rparr>)"
    unfolding bh by (rule ext) (auto simp: g2_def g1_def update_block_def)
  have p2: "\<And>x. mset (predecessors (block_heap g2 x)) =
     mset (predecessors (block_heap g x)) - (if x = ?S then {#b#} else {#})"
    by (auto simp: g2_def g1_def update_block_def)
  have ms2: "\<forall>x. mset (P x) =
           mset (predecessors (block_heap g x)) - replicate_mset (count (mset ?ss) x) b"
  proof
    fix x
    have c: "count (mset (remove1 ?S ?ss)) x = count (mset ?ss) x - (if x = ?S then 1 else 0)"
      by simp
    have pos: "x = ?S \<Longrightarrow> count (mset ?ss) x > 0"
      using Sin by simp
    show "mset (P x) =
           mset (predecessors (block_heap g x)) - replicate_mset (count (mset ?ss) x) b"
      using ms [rule_format, of x] pos
      apply (simp only: ss2 p2 c)
      apply (auto simp: multiset_eq_iff)
      done
  qed
  from r f i f2 bh2 ms2 step show ?case
    by (auto simp: same_frame_def)
qed

lemma DeleteBlock_result:
  assumes "DeleteBlock b g = Inr g'"
  shows "\<exists>P. 0 \<le> block_id (block_heap g b) \<and> nat (block_id (block_heap g b)) < length (blocks g) \<and>
     blocks g' = (blocks g)[nat (block_id (block_heap g b)) := None] \<and>
     Some b \<in> set (reverse_post_order g) \<and>
     reverse_post_order g' = remove1 (Some b) (reverse_post_order g) \<and>
     (linear_order g \<noteq> [] \<longrightarrow> Some b \<in> set (linear_order g)) \<and>
     linear_order g' = remove1 (Some b) (linear_order g) \<and>
     loop_heap g' = loop_heap g \<and> arena_top g' = arena_top g \<and>
     insn_heap g' = detach_all (phis (block_heap g b) @ instructions (block_heap g b)) (insn_heap g) \<and>
     block_heap g' = (\<lambda>x. if x = b
         then (block_heap g b)\<lparr>successors := [], predecessors := [], instructions := [], phis := []\<rparr>
         else (block_heap g x)\<lparr>predecessors := P x\<rparr>) \<and>
     (\<forall>x. mset (P x) = mset (predecessors (block_heap g x)) -
             replicate_mset (count (mset (successors (block_heap g b))) x) b)"
proof -
  from assms obtain g1 where
    r1: "remove_phis_loop b (phis (block_heap g b)) g = Inr g1"
    by (auto simp: DeleteBlock_def split: sum.splits)
  from assms r1 obtain g2 where
    r2: "remove_instructions_loop b (instructions (block_heap g1 b)) g1 = Inr g2"
    by (auto simp: DeleteBlock_def split: sum.splits)
  note p1 = remove_phis_loop_result [OF r1]
  note p2 = remove_instructions_loop_result [OF r2]
  from remove_successors_loop_result [OF refl, of g2 b] obtain g3 P where
    r3: "remove_successors_loop (length (successors (block_heap g2 b))) b g2 = Inr g3"
    and f3: "same_frame g2 g3" and i3: "insn_heap g3 = insn_heap g2"
    and b3: "block_heap g3 = (\<lambda>x. (block_heap g2 x)\<lparr>successors := (if x = b then [] else successors (block_heap g2 x)),
                                              predecessors := P x\<rparr>)"
    and m3: "\<forall>x. mset (P x) =
           mset (predecessors (block_heap g2 x)) - replicate_mset (count (mset (successors (block_heap g2 b))) x) b"
    by blast
  have fr: "same_frame g g3"
    using p1 p2 f3 by (simp add: same_frame_def)
  have ih: "insn_heap g3 = detach_all (phis (block_heap g b) @ instructions (block_heap g b)) (insn_heap g)"
    using p1 p2 i3 by (simp add: detach_all_append)
  have bh2: "block_heap g2 = (block_heap g)(b := (block_heap g b)\<lparr>phis := [], instructions := []\<rparr>)"
    using p1 p2 by (simp add: foldl_remove1_self)
  have bh3: "block_heap (ClearAllPredecessors b g3) = (\<lambda>x. if x = b
         then (block_heap g b)\<lparr>successors := [], predecessors := [], instructions := [], phis := []\<rparr>
         else (block_heap g x)\<lparr>predecessors := P x\<rparr>)"
    by (rule ext) (simp add: ClearAllPredecessors_def update_block_def b3 bh2)
  have m: "\<forall>x. mset (P x) = mset (predecessors (block_heap g x)) -
             replicate_mset (count (mset (successors (block_heap g b))) x) b"
    using m3 by (simp add: bh2)
  have bid: "block_id (block_heap g3 b) = block_id (block_heap g b)"
    by (simp add: b3 bh2)
  have rest: "0 \<le> block_id (block_heap g b) \<and> nat (block_id (block_heap g b)) < length (blocks g) \<and>
     blocks g' = (blocks g)[nat (block_id (block_heap g b)) := None] \<and>
     Some b \<in> set (reverse_post_order g) \<and>
     reverse_post_order g' = remove1 (Some b) (reverse_post_order g) \<and>
     (linear_order g \<noteq> [] \<longrightarrow> Some b \<in> set (linear_order g)) \<and>
     linear_order g' = remove1 (Some b) (linear_order g) \<and>
     loop_heap g' = loop_heap g \<and> arena_top g' = arena_top g \<and>
     insn_heap g' = insn_heap g3 \<and> block_heap g' = block_heap (ClearAllPredecessors b g3)"
    using assms fr
    apply (simp add: DeleteBlock_def r1 r2 r3 Let_def clear_block_entry_def put_at_def RemoveElement_def
        split: sum.splits if_splits)
    apply (auto simp: same_frame_def ClearAllPredecessors_def update_block_def bid split: if_splits)
    done
  with ih bh3 m show ?thesis
    by (intro exI [of _ P]) simp
qed

lemma DeleteBlock_links:
  assumes "DeleteBlock b g = Inr g'"
  shows "successors (block_heap g' b) = []" "predecessors (block_heap g' b) = []"
    "\<And>x. x \<noteq> b \<Longrightarrow> successors (block_heap g' x) = successors (block_heap g x)"
    "\<And>x a. x \<noteq> b \<Longrightarrow> a \<noteq> b \<Longrightarrow>
        count_list (predecessors (block_heap g' x)) a = count_list (predecessors (block_heap g x)) a"
    "\<And>x. x \<noteq> b \<Longrightarrow> count_list (predecessors (block_heap g' x)) b =
        count_list (predecessors (block_heap g x)) b - count_list (successors (block_heap g b)) x"
    "\<And>x. block_id (block_heap g' x) = block_id (block_heap g x)"
proof -
  from DeleteBlock_result [OF assms] obtain P where
    bh: "block_heap g' = (\<lambda>x. if x = b
         then (block_heap g b)\<lparr>successors := [], predecessors := [], instructions := [], phis := []\<rparr>
         else (block_heap g x)\<lparr>predecessors := P x\<rparr>)"
    and m: "\<forall>x. mset (P x) = mset (predecessors (block_heap g x)) -
             replicate_mset (count (mset (successors (block_heap g b))) x) b"
    by blast
  show "successors (block_heap g' b) = []" "predecessors (block_heap g' b) = []"
    by (simp_all add: bh)
  show "\<And>x. x \<noteq> b \<Longrightarrow> successors (block_heap g' x) = successors (block_heap g x)"
    by (simp add: bh)
  show "\<And>x. block_id (block_heap g' x) = block_id (block_heap g x)"
    by (simp add: bh)
  have c: "\<And>x a. count_list (P x) a = count_list (predecessors (block_heap g x)) a -
      (if a = b then count_list (successors (block_heap g b)) x else 0)"
  proof -
    fix x a
    have "count (mset (P x)) a = count (mset (predecessors (block_heap g x)) -
             replicate_mset (count (mset (successors (block_heap g b))) x) b) a"
      using m by simp
    thus "count_list (P x) a = count_list (predecessors (block_heap g x)) a -
      (if a = b then count_list (successors (block_heap g b)) x else 0)"
      by (simp add: count_mset)
  qed
  show "\<And>x a. x \<noteq> b \<Longrightarrow> a \<noteq> b \<Longrightarrow>
        count_list (predecessors (block_heap g' x)) a = count_list (predecessors (block_heap g x)) a"
    by (simp add: bh c)
  show "\<And>x. x \<noteq> b \<Longrightarrow> count_list (predecessors (block_heap g' x)) b =
        count_list (predecessors (block_heap g x)) b - count_list (successors (block_heap g b)) x"
    by (simp add: bh c)
qed

lemma DeleteBlock_live:
  assumes t: "table_ok g" and r: "rpo_ok g" and d: "DeleteBlock b g = Inr g'"
  shows "b \<in> live g" "live g' = live g - {b}" "table_ok g'" "rpo_ok g'"
proof -
  from DeleteBlock_result [OF d] have
    idx: "0 \<le> block_id (block_heap g b)" "nat (block_id (block_heap g b)) < length (blocks g)"
    and bl: "blocks g' = (blocks g)[nat (block_id (block_heap g b)) := None]"
    and inr: "Some b \<in> set (reverse_post_order g)"
    and rp: "reverse_post_order g' = remove1 (Some b) (reverse_post_order g)"
    by blast+
  from r inr show lb: "b \<in> live g" by (auto simp: rpo_ok_def live_iff)
  have slot: "\<And>j c. j < length (blocks g) \<Longrightarrow> blocks g ! j = Some c \<Longrightarrow> block_id (block_heap g c) = int j"
    using t by (auto simp: table_ok_def split: option.splits)
  let ?i = "nat (block_id (block_heap g b))"
  have at_b: "blocks g ! ?i = Some b"
  proof -
    from lb obtain k where k: "k < length (blocks g)" "blocks g ! k = Some b"
      by (auto simp: live_iff in_set_conv_nth)
    from slot [OF k] have "?i = k" by simp
    with k show ?thesis by simp
  qed
  have mem: "\<And>c. Some c \<in> set (blocks g') \<longleftrightarrow> Some c \<in> set (blocks g) \<and> c \<noteq> b"
  proof
    fix c assume "Some c \<in> set (blocks g')"
    then obtain j where j: "j < length (blocks g)" "(blocks g)[?i := None] ! j = Some c"
      by (auto simp: bl in_set_conv_nth)
    hence ne: "j \<noteq> ?i" by (cases "j = ?i") auto
    with j have at: "blocks g ! j = Some c" by simp
    from slot [OF j(1) at] ne idx have "c \<noteq> b" by auto
    with j(1) at show "Some c \<in> set (blocks g) \<and> c \<noteq> b" by (auto simp: in_set_conv_nth)
  next
    fix c assume a: "Some c \<in> set (blocks g) \<and> c \<noteq> b"
    then obtain j where j: "j < length (blocks g)" "blocks g ! j = Some c"
      by (auto simp: in_set_conv_nth)
    from j a at_b have "j \<noteq> ?i" by auto
    with j show "Some c \<in> set (blocks g')"
      by (auto simp: bl in_set_conv_nth nth_list_update intro!: exI [of _ j])
  qed
  show "live g' = live g - {b}"
    by (auto simp: live_iff mem)
  show "table_ok g'"
    unfolding table_ok_def
  proof (intro allI impI)
    fix j assume j: "j < length (blocks g')"
    show "case blocks g' ! j of None \<Rightarrow> True | Some c \<Rightarrow> block_id (block_heap g' c) = int j"
    proof (cases "j = ?i")
      case True
      with j show ?thesis by (simp add: bl)
    next
      case False
      with j slot [of j] show ?thesis
        by (simp add: bl DeleteBlock_links(6) [OF d] split: option.splits)
    qed
  qed
  show "rpo_ok g'"
    using r by (auto simp: rpo_ok_def rp mem dest: notin_set_remove1)
qed

lemma DeleteBlock_step:
  assumes t: "table_ok g" and r: "rpo_ok g" and d: "DeleteBlock b g = Inr g'"
  shows "mutually_linked g \<Longrightarrow> mutually_linked g'"
    "linkage_consistent g \<Longrightarrow> linkage_consistent g'"
    "linkage_consistent g \<Longrightarrow> \<forall>A\<in>live g'. b \<notin> set (predecessors (block_heap g' A))"
    "\<forall>A\<in>live g'. successors (block_heap g' A) = successors (block_heap g A)"
    "\<forall>A\<in>live g'. set (predecessors (block_heap g' A)) \<subseteq> set (predecessors (block_heap g A))"
proof -
  note lv = DeleteBlock_live [OF t r d]
  note lk = DeleteBlock_links [OF d]
  have mem: "\<And>A a. A \<noteq> b \<Longrightarrow> a \<noteq> b \<Longrightarrow>
      a \<in> set (predecessors (block_heap g' A)) \<longleftrightarrow> a \<in> set (predecessors (block_heap g A))"
    by (simp add: in_set_count lk(4))
  show "\<forall>A\<in>live g'. successors (block_heap g' A) = successors (block_heap g A)"
    by (simp add: lv(2) lk(3))
  show "\<forall>A\<in>live g'. set (predecessors (block_heap g' A)) \<subseteq> set (predecessors (block_heap g A))"
  proof (intro ballI subsetI)
    fix A a assume A: "A \<in> live g'" and a: "a \<in> set (predecessors (block_heap g' A))"
    from A have ne: "A \<noteq> b" by (simp add: lv(2))
    show "a \<in> set (predecessors (block_heap g A))"
    proof (cases "a = b")
      case True
      with a lk(5) [OF ne] show ?thesis by (auto simp: in_set_count)
    next
      case False
      with a mem [OF ne False] show ?thesis by simp
    qed
  qed
  show "mutually_linked g'" if m: "mutually_linked g"
    unfolding mutually_linked_def
  proof (intro ballI)
    fix A B assume "A \<in> live g'" "B \<in> live g'"
    hence A: "A \<in> live g" "A \<noteq> b" and B: "B \<in> live g" "B \<noteq> b" by (simp_all add: lv(2))
    from m A(1) B(1) have "(B \<in> set (successors (block_heap g A))) = (A \<in> set (predecessors (block_heap g B)))"
      by (simp add: mutually_linked_def)
    thus "(B \<in> set (successors (block_heap g' A))) = (A \<in> set (predecessors (block_heap g' B)))"
      by (simp add: lk(3) [OF A(2)] mem [OF B(2) A(2)])
  qed
  show "linkage_consistent g'" if m: "linkage_consistent g"
    unfolding linkage_consistent_def
  proof (intro ballI)
    fix A B assume "A \<in> live g'" "B \<in> live g'"
    hence A: "A \<in> live g" "A \<noteq> b" and B: "B \<in> live g" "B \<noteq> b" by (simp_all add: lv(2))
    from m A(1) B(1) have "count_list (successors (block_heap g A)) B = count_list (predecessors (block_heap g B)) A"
      by (simp add: linkage_consistent_def)
    thus "count_list (successors (block_heap g' A)) B = count_list (predecessors (block_heap g' B)) A"
      by (simp add: lk(3) [OF A(2)] lk(4) [OF B(2) A(2)])
  qed
  show "\<forall>A\<in>live g'. b \<notin> set (predecessors (block_heap g' A))" if m: "linkage_consistent g"
  proof
    fix A assume "A \<in> live g'"
    hence A: "A \<in> live g" "A \<noteq> b" by (simp_all add: lv(2))
    from m A(1) lv(1) have "count_list (successors (block_heap g b)) A = count_list (predecessors (block_heap g A)) b"
      by (simp add: linkage_consistent_def)
    thus "b \<notin> set (predecessors (block_heap g' A))"
      by (simp add: in_set_count lk(5) [OF A(2)])
  qed
qed

lemma DeleteBlocks_invariants:
  assumes "table_ok g" and "rpo_ok g" and "DeleteBlocks bs g = Inr g'"
  shows "table_ok g' \<and> rpo_ok g' \<and> live g' = live g - set bs \<and>
     (mutually_linked g \<longrightarrow> mutually_linked g') \<and>
     (linkage_consistent g \<longrightarrow> linkage_consistent g') \<and>
     (\<forall>A\<in>live g'. successors (block_heap g' A) = successors (block_heap g A)) \<and>
     (\<forall>A\<in>live g'. set (predecessors (block_heap g' A)) \<subseteq> set (predecessors (block_heap g A))) \<and>
     (linkage_consistent g \<longrightarrow> (\<forall>A\<in>live g'. \<forall>D\<in>set bs. D \<notin> set (predecessors (block_heap g' A))))"
  using assms
proof (induction bs arbitrary: g)
  case Nil
  then show ?case by simp
next
  case (Cons b bs)
  from Cons.prems(3) obtain g1 where d: "DeleteBlock b g = Inr g1" and ds: "DeleteBlocks bs g1 = Inr g'"
    by (auto split: sum.splits)
  note lv = DeleteBlock_live [OF Cons.prems(1,2) d]
  note st = DeleteBlock_step [OF Cons.prems(1,2) d]
  note ih = Cons.IH [OF lv(3) lv(4) ds]
  have sub: "live g' \<subseteq> live g1" using ih by auto
  show ?case
  proof (intro conjI)
    show "table_ok g'" "rpo_ok g'" using ih by simp_all
    show "live g' = live g - set (b # bs)" using ih lv(2) by auto
    show "mutually_linked g \<longrightarrow> mutually_linked g'" using ih st(1) by blast
    show "linkage_consistent g \<longrightarrow> linkage_consistent g'" using ih st(2) by blast
    show "\<forall>A\<in>live g'. successors (block_heap g' A) = successors (block_heap g A)"
      using ih st(4) sub by auto
    show "\<forall>A\<in>live g'. set (predecessors (block_heap g' A)) \<subseteq> set (predecessors (block_heap g A))"
      using ih st(5) sub by blast
    show "linkage_consistent g \<longrightarrow> (\<forall>A\<in>live g'. \<forall>D\<in>set (b # bs). D \<notin> set (predecessors (block_heap g' A)))"
    proof (intro impI ballI)
      fix A D assume lc: "linkage_consistent g" and A: "A \<in> live g'" and D: "D \<in> set (b # bs)"
      show "D \<notin> set (predecessors (block_heap g' A))"
      proof (cases "D = b")
        case True
        from A sub have "A \<in> live g1" by auto
        with st(3) [OF lc] have "b \<notin> set (predecessors (block_heap g1 A))" by simp
        moreover from ih A have "set (predecessors (block_heap g' A)) \<subseteq> set (predecessors (block_heap g1 A))" by simp
        ultimately show ?thesis using True by auto
      next
        case False
        with D have "D \<in> set bs" by simp
        with ih st(2) [OF lc] A show ?thesis by simp
      qed
    qed
  qed
qed

section \<open>Evaluation of the examples\<close>

lemmas delete_eval = DeleteBlock_def Let_def RemoveAsUser_def RemoveFromEnvironmentUsers_def
  RemovePhi_def AsPhi_def RemoveInstruction_def RemovePredecessor_def RemoveSuccessor_def
  RemoveElement_def ClearAllPredecessors_def clear_block_entry_def put_at_def
  update_block_def update_insn_def empty_block_def plain_insn_def

lemma graph_chain_delete_1: "\<exists>g'. DeleteBlock 1 graph_chain = Inr g'"
  by (simp add: delete_eval graph_chain_def numeral_2_eq_2)

lemma graph_chain_ok:
  "table_ok graph_chain" "rpo_ok graph_chain" "mutually_linked graph_chain"
  "linkage_consistent graph_chain"
  by (simp_all add: table_ok_def rpo_ok_def mutually_linked_def linkage_consistent_def live_def
      graph_chain_def empty_block_def All_less_Suc numeral_3_eq_3 in_these_eq)

section \<open>CreateLinkBetweenBlocks: dominance and reverse post order\<close>

lemma CreateLink_rpo_list:
  assumes "Some E \<in> set (reverse_post_order g)"
  shows "\<exists>g'. CreateLinkBetweenBlocks E N d add_after g = Inr g' \<and>
           reverse_post_order g' =
             (let rpo = reverse_post_order g; i = index_of (Some E) rpo
              in if add_after then take (Suc i) rpo @ [Some N] @ drop (Suc i) rpo
                 else take i rpo @ [Some N] @ drop i rpo)"
proof -
  from assms obtain xs ys where
    rpo: "reverse_post_order g = xs @ Some E # ys" and nin: "Some E \<notin> set xs"
    by (meson split_list_first)
  show ?thesis
    using nin
    by (cases ys)
      (simp_all add: CreateLinkBetweenBlocks_def Let_def IndexOfElement_def MakeRoomFor_def
        put_at_def AddSuccessor_def SetDominator_def AddDominatedBlock_def update_block_def
        index_of_append rpo nth_append list_update_append)
qed

lemma CreateLinkBetweenBlocks_dominance:
  assumes "Some E \<in> set (reverse_post_order g)"
  shows "\<exists>g'. CreateLinkBetweenBlocks E N True add_after g = Inr g' \<and>
           (if add_after
            then dominator (block_heap g' N) = Some E \<and>
                 dominated_blocks (block_heap g' E) = dominated_blocks (block_heap g E) @ [N] \<and>
                 (E \<noteq> N \<longrightarrow> dominator (block_heap g' E) = dominator (block_heap g E) \<and>
                    dominated_blocks (block_heap g' N) = dominated_blocks (block_heap g N))
            else dominator (block_heap g' E) = Some N \<and>
                 dominated_blocks (block_heap g' N) = dominated_blocks (block_heap g N) @ [E] \<and>
                 (E \<noteq> N \<longrightarrow> dominator (block_heap g' N) = dominator (block_heap g N) \<and>
                    dominated_blocks (block_heap g' E) = dominated_blocks (block_heap g E))) \<and>
           (\<forall>b. b \<noteq> E \<and> b \<noteq> N \<longrightarrow>
              dominator (block_heap g' b) = dominator (block_heap g b) \<and>
              dominated_blocks (block_heap g' b) = dominated_blocks (block_heap g b))"
proof -
  from assms obtain xs ys where
    rpo: "reverse_post_order g = xs @ Some E # ys" and nin: "Some E \<notin> set xs"
    by (meson split_list_first)
  show ?thesis
    using nin
    by (cases ys)
      (simp_all add: CreateLinkBetweenBlocks_def Let_def IndexOfElement_def MakeRoomFor_def
        put_at_def AddSuccessor_def SetDominator_def AddDominatedBlock_def update_block_def
        index_of_append rpo nth_append list_update_append)
qed

text \<open>
  Claim C2, as amended. A call \<^verbatim>\<open>CreateLinkBetweenBlocks(E, N, true, d)\<close> with \<open>E\<close> in the
  reverse post order returns. When \<open>N\<close> is linked after \<open>E\<close>, the immediate dominator of \<open>N\<close>
  is \<open>E\<close> and \<open>N\<close> is appended to the blocks \<open>E\<close> dominates. When \<open>N\<close> is linked before \<open>E\<close>,
  it is the other way round: the immediate dominator of \<open>E\<close> is \<open>N\<close> and \<open>E\<close> is appended to
  the blocks \<open>N\<close> dominates. No other dominance link changes.
\<close>

theorem CreateLinkBetweenBlocks_dominator:
  assumes "Some E \<in> set (reverse_post_order g)"
  shows "\<exists>g'. CreateLinkBetweenBlocks E N True add_after g = Inr g' \<and>
           (if add_after
            then dominator (block_heap g' N) = Some E \<and>
                 dominated_blocks (block_heap g' E) = dominated_blocks (block_heap g E) @ [N] \<and>
                 (E \<noteq> N \<longrightarrow> dominator (block_heap g' E) = dominator (block_heap g E) \<and>
                    dominated_blocks (block_heap g' N) = dominated_blocks (block_heap g N))
            else dominator (block_heap g' E) = Some N \<and>
                 dominated_blocks (block_heap g' N) = dominated_blocks (block_heap g N) @ [E] \<and>
                 (E \<noteq> N \<longrightarrow> dominator (block_heap g' N) = dominator (block_heap g N) \<and>
                    dominated_blocks (block_heap g' E) = dominated_blocks (block_heap g E))) \<and>
           (\<forall>b. b \<noteq> E \<and> b \<noteq> N \<longrightarrow>
              dominator (block_heap g' b) = dominator (block_heap g b) \<and>
              dominated_blocks (block_heap g' b) = dominated_blocks (block_heap g b))"
  using CreateLinkBetweenBlocks_dominance [OF assms] .

text \<open>
  Claim C2 as it was stated fails when \<open>N\<close> is linked before \<open>E\<close>: on \<open>graph_EF\<close>, linking
  \<open>N = 2\<close> before \<open>E = 0\<close> with dominance leaves \<open>N\<close> without an immediate dominator and
  \<open>E\<close> dominating nothing; it is \<open>E\<close> whose immediate dominator becomes \<open>N\<close>.
\<close>

theorem CreateLinkBetweenBlocks_dominator_counterexample:
  "\<not> isl (CreateLinkBetweenBlocks 0 2 True False graph_EF) \<and>
   dominator (block_heap (projr (CreateLinkBetweenBlocks 0 2 True False graph_EF)) 2) = None \<and>
   dominated_blocks (block_heap (projr (CreateLinkBetweenBlocks 0 2 True False graph_EF)) 0) = [] \<and>
   dominator (block_heap (projr (CreateLinkBetweenBlocks 0 2 True False graph_EF)) 0) = Some 2 \<and>
   dominated_blocks (block_heap (projr (CreateLinkBetweenBlocks 0 2 True False graph_EF)) 2) = [0]"
  by (simp add: CreateLinkBetweenBlocks_def Let_def IndexOfElement_def MakeRoomFor_def put_at_def
      AddSuccessor_def SetDominator_def AddDominatedBlock_def update_block_def graph_EF_def
      empty_block_def)

text \<open>
  Witness for C2 as amended: on \<open>graph_EF\<close>, block 0 is in the reverse post order, and
  both directions give the links the theorem states.
\<close>

theorem CreateLinkBetweenBlocks_dominator_witness:
  "Some 0 \<in> set (reverse_post_order graph_EF) \<and>
   \<not> isl (CreateLinkBetweenBlocks 0 2 True True graph_EF) \<and>
   dominator (block_heap (projr (CreateLinkBetweenBlocks 0 2 True True graph_EF)) 2) = Some 0 \<and>
   dominated_blocks (block_heap (projr (CreateLinkBetweenBlocks 0 2 True True graph_EF)) 0) = [2] \<and>
   \<not> isl (CreateLinkBetweenBlocks 0 2 True False graph_EF) \<and>
   dominator (block_heap (projr (CreateLinkBetweenBlocks 0 2 True False graph_EF)) 0) = Some 2 \<and>
   dominated_blocks (block_heap (projr (CreateLinkBetweenBlocks 0 2 True False graph_EF)) 2) = [0]"
  using CreateLinkBetweenBlocks_dominator [of 0 graph_EF 2 True]
    CreateLinkBetweenBlocks_dominator [of 0 graph_EF 2 False]
  by (auto simp: graph_EF_def empty_block_def)

text \<open>
  Claim C5. A call \<^verbatim>\<open>CreateLinkBetweenBlocks\<close> with the existing block \<open>E\<close> in the reverse
  post order returns, and with \<open>i\<close> the position of \<open>E\<close>: when linking after, the new order
  is the old one with \<open>N\<close> inserted at position \<open>i + 1\<close>, right behind \<open>E\<close>; when linking
  before, it is the old one with \<open>N\<close> inserted at position \<open>i\<close>, right in front of \<open>E\<close>.
  All other entries keep their order, those behind the insertion moved by one. In
  particular \<open>[E, F]\<close> becomes \<open>[E, N, F]\<close> when \<open>N\<close> is linked after \<open>E\<close>.
\<close>

theorem CreateLinkBetweenBlocks_rpo:
  assumes "Some E \<in> set (reverse_post_order g)"
  shows "\<exists>g'. CreateLinkBetweenBlocks E N d add_after g = Inr g' \<and>
           (let rpo = reverse_post_order g; i = index_of (Some E) rpo
            in i < length rpo \<and> rpo ! i = Some E \<and>
               reverse_post_order g' =
                 (if add_after then take (Suc i) rpo @ [Some N] @ drop (Suc i) rpo
                  else take i rpo @ [Some N] @ drop i rpo)) \<and>
           (add_after \<longrightarrow> (\<forall>F. reverse_post_order g = [Some E, Some F] \<longrightarrow>
               reverse_post_order g' = [Some E, Some N, Some F]))"
proof -
  from CreateLink_rpo_list [OF assms] obtain g' where
    r: "CreateLinkBetweenBlocks E N d add_after g = Inr g'" and
    o: "reverse_post_order g' =
             (let rpo = reverse_post_order g; i = index_of (Some E) rpo
              in if add_after then take (Suc i) rpo @ [Some N] @ drop (Suc i) rpo
                 else take i rpo @ [Some N] @ drop i rpo)"
    by blast
  have p: "add_after \<longrightarrow> (\<forall>F. reverse_post_order g = [Some E, Some F] \<longrightarrow>
               reverse_post_order g' = [Some E, Some N, Some F])"
    by (simp add: o)
  from assms have i: "index_of (Some E) (reverse_post_order g) < length (reverse_post_order g)"
    "reverse_post_order g ! index_of (Some E) (reverse_post_order g) = Some E"
    by (simp_all add: index_of_less index_of_nth)
  from r o p i show ?thesis
    by (simp add: Let_def)
qed

text \<open>
  Witness for C5: on \<open>graph_EF\<close>, whose reverse post order is \<open>[0, 1]\<close>, linking block 2
  after block 0 and linking it before block 1 both give \<open>[0, 2, 1]\<close>.
\<close>

theorem CreateLinkBetweenBlocks_rpo_witness:
  "Some 0 \<in> set (reverse_post_order graph_EF) \<and>
   \<not> isl (CreateLinkBetweenBlocks 0 2 True True graph_EF) \<and>
   reverse_post_order (projr (CreateLinkBetweenBlocks 0 2 True True graph_EF)) =
     [Some 0, Some 2, Some 1] \<and>
   Some 1 \<in> set (reverse_post_order graph_EF) \<and>
   \<not> isl (CreateLinkBetweenBlocks 1 2 False False graph_EF) \<and>
   reverse_post_order (projr (CreateLinkBetweenBlocks 1 2 False False graph_EF)) =
     [Some 0, Some 2, Some 1]"
  using CreateLinkBetweenBlocks_rpo [of 0 graph_EF 2 True True]
    CreateLinkBetweenBlocks_rpo [of 1 graph_EF 2 False False]
  by (auto simp: graph_EF_def)

section \<open>DeleteBlock: the claims\<close>

lemma DeleteBlock_effects:
  assumes "DeleteBlock b g = Inr g'"
      and "distinct (reverse_post_order g)" and "distinct (linear_order g)"
  shows "phis (block_heap g' b) = [] \<and> instructions (block_heap g' b) = [] \<and>
    (\<forall>i\<in>set (phis (block_heap g b) @ instructions (block_heap g b)).
        block (insn_heap g' i) = None \<and>
        (\<forall>x. i \<notin> fst ` set (uses (insn_heap g' x)) \<and>
             i \<notin> fst ` set (env_uses (insn_heap g' x)))) \<and>
    0 \<le> block_id (block_heap g b) \<and> nat (block_id (block_heap g b)) < length (blocks g) \<and>
    blocks g' = (blocks g)[nat (block_id (block_heap g b)) := None] \<and>
    blocks g' ! nat (block_id (block_heap g b)) = None \<and>
    reverse_post_order g' = remove1 (Some b) (reverse_post_order g) \<and>
    Some b \<notin> set (reverse_post_order g') \<and>
    linear_order g' = remove1 (Some b) (linear_order g) \<and>
    Some b \<notin> set (linear_order g') \<and>
    (linear_order g = [] \<longrightarrow> linear_order g' = [])"
proof -
  from DeleteBlock_result [OF assms(1)] obtain P where
    idx: "0 \<le> block_id (block_heap g b)" "nat (block_id (block_heap g b)) < length (blocks g)"
    and bl: "blocks g' = (blocks g)[nat (block_id (block_heap g b)) := None]"
    and rp: "reverse_post_order g' = remove1 (Some b) (reverse_post_order g)"
    and lo: "linear_order g' = remove1 (Some b) (linear_order g)"
    and ih: "insn_heap g' = detach_all (phis (block_heap g b) @ instructions (block_heap g b)) (insn_heap g)"
    and bh: "block_heap g' = (\<lambda>x. if x = b
         then (block_heap g b)\<lparr>successors := [], predecessors := [], instructions := [], phis := []\<rparr>
         else (block_heap g x)\<lparr>predecessors := P x\<rparr>)"
    by blast
  have a: "phis (block_heap g' b) = [] \<and> instructions (block_heap g' b) = []"
    by (simp add: bh)
  have b: "\<forall>i\<in>set (phis (block_heap g b) @ instructions (block_heap g b)).
        block (insn_heap g' i) = None \<and>
        (\<forall>x. i \<notin> fst ` set (uses (insn_heap g' x)) \<and>
             i \<notin> fst ` set (env_uses (insn_heap g' x)))"
    unfolding ih by (auto simp: detach_all_def)
  have c: "blocks g' ! nat (block_id (block_heap g b)) = None"
    using idx by (simp add: bl)
  have d: "Some b \<notin> set (reverse_post_order g')" "Some b \<notin> set (linear_order g')"
    using assms(2,3) by (simp_all add: rp lo)
  have e: "linear_order g = [] \<longrightarrow> linear_order g' = []"
    by (simp add: lo)
  from a b c d e idx bl rp lo show ?thesis by blast
qed

lemma remove_phis_loop_returns:
  "distinct xs \<Longrightarrow> \<forall>x\<in>set xs. block (insn_heap g x) = Some b \<and> is_phi (insn_heap g x) \<Longrightarrow>
   \<exists>g'. remove_phis_loop b xs g = Inr g'"
proof (induction xs arbitrary: g)
  case Nil
  then show ?case by simp
next
  case (Cons i rest)
  let ?g1 = "RemoveFromEnvironmentUsers i (RemoveAsUser i g)"
  from Cons.prems(2) have "\<exists>g2. RemovePhi b (AsPhi ?g1 i) ?g1 = Inr g2"
    by (simp add: RemovePhi_def AsPhi_def RemoveFromEnvironmentUsers_def RemoveAsUser_def)
  then obtain g2 where r: "RemovePhi b (AsPhi ?g1 i) ?g1 = Inr g2" by blast
  note s = remove_phi_step [OF r refl]
  from Cons.prems have "\<forall>x\<in>set rest. block (insn_heap g2 x) = Some b \<and> is_phi (insn_heap g2 x)"
    by (auto simp: s(5) detach_all_def)
  with Cons.IH [of g2] Cons.prems(1) obtain g' where "remove_phis_loop b rest g2 = Inr g'"
    by auto
  with r show ?case by (simp add: Let_def)
qed

lemma remove_instructions_loop_returns:
  "distinct xs \<Longrightarrow> \<forall>x\<in>set xs. block (insn_heap g x) = Some b \<and> \<not> is_phi (insn_heap g x) \<Longrightarrow>
   \<exists>g'. remove_instructions_loop b xs g = Inr g'"
proof (induction xs arbitrary: g)
  case Nil
  then show ?case by simp
next
  case (Cons i rest)
  let ?g1 = "RemoveFromEnvironmentUsers i (RemoveAsUser i g)"
  from Cons.prems(2) have "\<exists>g2. RemoveInstruction b i ?g1 = Inr g2"
    by (simp add: RemoveInstruction_def RemoveFromEnvironmentUsers_def RemoveAsUser_def)
  then obtain g2 where r: "RemoveInstruction b i ?g1 = Inr g2" by blast
  note s = remove_instruction_step [OF r refl]
  from Cons.prems have "\<forall>x\<in>set rest. block (insn_heap g2 x) = Some b \<and> \<not> is_phi (insn_heap g2 x)"
    by (auto simp: s(5) detach_all_def)
  with Cons.IH [of g2] Cons.prems(1) obtain g' where "remove_instructions_loop b rest g2 = Inr g'"
    by auto
  with r show ?case by (simp add: Let_def)
qed

lemma DeleteBlock_returns:
  assumes "distinct (phis (block_heap g b))"
      and "\<forall>i\<in>set (phis (block_heap g b)). block (insn_heap g i) = Some b \<and> is_phi (insn_heap g i)"
      and "distinct (instructions (block_heap g b))"
      and "\<forall>i\<in>set (instructions (block_heap g b)).
             block (insn_heap g i) = Some b \<and> \<not> is_phi (insn_heap g i)"
      and "0 \<le> block_id (block_heap g b)"
      and "nat (block_id (block_heap g b)) < length (blocks g)"
      and "Some b \<in> set (reverse_post_order g)"
      and "linear_order g = [] \<or> Some b \<in> set (linear_order g)"
  shows "\<exists>g'. DeleteBlock b g = Inr g'"
proof -
  from remove_phis_loop_returns [OF assms(1,2)] obtain g1 where
    r1: "remove_phis_loop b (phis (block_heap g b)) g = Inr g1" by blast
  note p1 = remove_phis_loop_result [OF r1]
  have i1: "instructions (block_heap g1 b) = instructions (block_heap g b)"
    using p1 by simp
  have "\<forall>i\<in>set (instructions (block_heap g b)).
          block (insn_heap g1 i) = Some b \<and> \<not> is_phi (insn_heap g1 i)"
    using assms(2,4) p1 by (auto simp: detach_all_def)
  from remove_instructions_loop_returns [OF assms(3) this] obtain g2 where
    r2: "remove_instructions_loop b (instructions (block_heap g1 b)) g1 = Inr g2"
    unfolding i1 by blast
  note p2 = remove_instructions_loop_result [OF r2]
  from remove_successors_loop_result [OF refl, of g2 b] obtain g3 P where
    r3: "remove_successors_loop (length (successors (block_heap g2 b))) b g2 = Inr g3"
    and f3: "same_frame g2 g3"
    and b3: "block_heap g3 = (\<lambda>x. (block_heap g2 x)\<lparr>successors := (if x = b then [] else successors (block_heap g2 x)),
                                              predecessors := P x\<rparr>)"
    by blast
  have fr: "same_frame g g3"
    using p1 p2 f3 by (simp add: same_frame_def)
  have bid: "block_id (block_heap g3 b) = block_id (block_heap g b)"
    using p1 p2 by (simp add: b3)
  show ?thesis
    using assms(5-8) fr
    by (auto simp: DeleteBlock_def r1 r2 r3 Let_def clear_block_entry_def put_at_def
        RemoveElement_def same_frame_def ClearAllPredecessors_def update_block_def bid)
qed

text \<open>
  Claim C3. Let \<open>B\<close> be a block of the graph: its phi and instruction sequences list
  each member once, every member names \<open>B\<close> as its block, the phis are phis and the
  instructions are not; the id of \<open>B\<close> is an index of the block table; \<open>B\<close> is in the
  reverse post order; the linear order is either empty (not populated) or lists \<open>B\<close>;
  and neither ordering lists a block twice. Then \<^verbatim>\<open>DeleteBlock(B)\<close> returns, and
  afterwards: the phi and instruction sequences of \<open>B\<close> are empty; every instruction that
  was in them has no owning block and is the user in no use-list and in no
  environment-use list; the slot of \<open>B\<close> in the block table is null and the table has
  kept its length; \<open>B\<close> is absent from the reverse post order and from the linear order.
  On an empty linear order the call returns as well and leaves the order empty: the
  removal is skipped.
\<close>

theorem DeleteBlock_detaches_and_unregisters:
  assumes "distinct (phis (block_heap g b))"
      and "\<forall>i\<in>set (phis (block_heap g b)). block (insn_heap g i) = Some b \<and> is_phi (insn_heap g i)"
      and "distinct (instructions (block_heap g b))"
      and "\<forall>i\<in>set (instructions (block_heap g b)).
             block (insn_heap g i) = Some b \<and> \<not> is_phi (insn_heap g i)"
      and "0 \<le> block_id (block_heap g b)"
      and "nat (block_id (block_heap g b)) < length (blocks g)"
      and "Some b \<in> set (reverse_post_order g)" and "distinct (reverse_post_order g)"
      and "linear_order g = [] \<or> Some b \<in> set (linear_order g)"
      and "distinct (linear_order g)"
  shows "\<exists>g'. DeleteBlock b g = Inr g' \<and>
    phis (block_heap g' b) = [] \<and> instructions (block_heap g' b) = [] \<and>
    (\<forall>i\<in>set (phis (block_heap g b) @ instructions (block_heap g b)).
        block (insn_heap g' i) = None \<and>
        (\<forall>x. i \<notin> fst ` set (uses (insn_heap g' x)) \<and>
             i \<notin> fst ` set (env_uses (insn_heap g' x)))) \<and>
    blocks g' = (blocks g)[nat (block_id (block_heap g b)) := None] \<and>
    blocks g' ! nat (block_id (block_heap g b)) = None \<and>
    reverse_post_order g' = remove1 (Some b) (reverse_post_order g) \<and>
    Some b \<notin> set (reverse_post_order g') \<and>
    linear_order g' = remove1 (Some b) (linear_order g) \<and>
    Some b \<notin> set (linear_order g') \<and>
    (linear_order g = [] \<longrightarrow> linear_order g' = [])"
proof -
  from DeleteBlock_returns [OF assms(1-7,9)] obtain g' where r: "DeleteBlock b g = Inr g'"
    by blast
  from DeleteBlock_effects [OF r assms(8,10)] r show ?thesis
    by blast
qed

text \<open>
  Witness for C3: deleting block 1 of \<open>graph_EF\<close>, whose linear order is not populated,
  and block 1 of \<open>graph_chain\<close>, which holds one phi and two instructions and is listed
  in the linear order.
\<close>

theorem DeleteBlock_detaches_and_unregisters_witness:
  "linear_order graph_EF = [] \<and> Some 1 \<in> set (reverse_post_order graph_EF) \<and>
   \<not> isl (DeleteBlock 1 graph_EF) \<and>
   blocks (projr (DeleteBlock 1 graph_EF)) = [Some 0, None, Some 2] \<and>
   reverse_post_order (projr (DeleteBlock 1 graph_EF)) = [Some 0] \<and>
   linear_order (projr (DeleteBlock 1 graph_EF)) = [] \<and>
   Some 1 \<in> set (linear_order graph_chain) \<and>
   \<not> isl (DeleteBlock 1 graph_chain) \<and>
   phis (block_heap (projr (DeleteBlock 1 graph_chain)) 1) = [] \<and>
   instructions (block_heap (projr (DeleteBlock 1 graph_chain)) 1) = [] \<and>
   11 \<notin> fst ` set (uses (insn_heap (projr (DeleteBlock 1 graph_chain)) 20)) \<and>
   12 \<notin> fst ` set (env_uses (insn_heap (projr (DeleteBlock 1 graph_chain)) 20)) \<and>
   blocks (projr (DeleteBlock 1 graph_chain)) = [Some 0, None, Some 2] \<and>
   reverse_post_order (projr (DeleteBlock 1 graph_chain)) = [Some 0, Some 2] \<and>
   linear_order (projr (DeleteBlock 1 graph_chain)) = [Some 0, Some 2]"
proof -
  have v: "phis (block_heap graph_chain 1) = [10]" "instructions (block_heap graph_chain 1) = [11, 12]"
    "block_id (block_heap graph_chain 1) = 1" "blocks graph_chain = [Some 0, Some 1, Some 2]"
    "reverse_post_order graph_chain = [Some 0, Some 1, Some 2]"
    "linear_order graph_chain = [Some 0, Some 1, Some 2]"
    "block (insn_heap graph_chain 10) = Some 1" "is_phi (insn_heap graph_chain 10)"
    "block (insn_heap graph_chain 11) = Some 1" "\<not> is_phi (insn_heap graph_chain 11)"
    "block (insn_heap graph_chain 12) = Some 1" "\<not> is_phi (insn_heap graph_chain 12)"
    by (simp_all add: graph_chain_def empty_block_def plain_insn_def)
  have w: "phis (block_heap graph_EF 1) = []" "instructions (block_heap graph_EF 1) = []"
    "block_id (block_heap graph_EF 1) = 1" "blocks graph_EF = [Some 0, Some 1, Some 2]"
    "reverse_post_order graph_EF = [Some 0, Some 1]" "linear_order graph_EF = []"
    by (simp_all add: graph_EF_def empty_block_def)
  have "\<exists>g'. DeleteBlock 1 graph_EF = Inr g' \<and>
     blocks g' = [Some 0, None, Some 2] \<and> reverse_post_order g' = [Some 0] \<and>
     linear_order g' = []"
    using DeleteBlock_detaches_and_unregisters [of graph_EF 1]
    unfolding w by auto
  moreover have "\<exists>g'. DeleteBlock 1 graph_chain = Inr g' \<and>
     phis (block_heap g' 1) = [] \<and> instructions (block_heap g' 1) = [] \<and>
     11 \<notin> fst ` set (uses (insn_heap g' 20)) \<and> 12 \<notin> fst ` set (env_uses (insn_heap g' 20)) \<and>
     blocks g' = [Some 0, None, Some 2] \<and> reverse_post_order g' = [Some 0, Some 2] \<and>
     linear_order g' = [Some 0, Some 2]"
    using DeleteBlock_detaches_and_unregisters [of graph_chain 1] v(7-12)
    unfolding v(1-6) by auto
  ultimately show ?thesis
    unfolding v(6) w(5,6) by auto
qed

text \<open>
  Claim C4, as amended. For every sequence of \<^verbatim>\<open>DeleteBlock\<close> calls that all return, on
  a graph whose block table and reverse post order are in order: the blocks of the
  graph afterwards are those that were not deleted; if the linkage was mutually
  consistent before, every surviving pair is mutually consistent afterwards; the
  successor list of every surviving block is what it was before (so a surviving
  predecessor of a deleted block still lists it); and if every edge was listed as often
  on both sides, no surviving block's predecessor list mentions a deleted block.
\<close>

theorem DeleteBlocks_linkage:
  assumes "table_ok g" and "rpo_ok g" and "DeleteBlocks bs g = Inr g'"
  shows "live g' = live g - set bs \<and>
     (mutually_linked g \<longrightarrow> mutually_linked g') \<and>
     (\<forall>A\<in>live g'. successors (block_heap g' A) = successors (block_heap g A)) \<and>
     (linkage_consistent g \<longrightarrow>
        (\<forall>A\<in>live g'. \<forall>D\<in>set bs. D \<notin> set (predecessors (block_heap g' A))))"
  using DeleteBlocks_invariants [OF assms] by blast

text \<open>
  Claim C4 as it was stated fails: deleting block 1 of the chain \<open>0 \<rightarrow> 1 \<rightarrow> 2\<close>, whose
  linkage is consistent, leaves the surviving block 0 with the deleted block 1 in its
  successor list.
\<close>

theorem DeleteBlocks_linkage_counterexample:
  "table_ok graph_chain \<and> rpo_ok graph_chain \<and> mutually_linked graph_chain \<and>
   linkage_consistent graph_chain \<and>
   \<not> isl (DeleteBlocks [1] graph_chain) \<and>
   0 \<in> live (projr (DeleteBlocks [1] graph_chain)) \<and>
   1 \<notin> live (projr (DeleteBlocks [1] graph_chain)) \<and>
   1 \<in> set (successors (block_heap (projr (DeleteBlocks [1] graph_chain)) 0))"
proof -
  from graph_chain_delete_1 obtain g' where d: "DeleteBlock 1 graph_chain = Inr g'"
    by blast
  hence e: "DeleteBlocks [1] graph_chain = Inr g'"
    by simp
  have "live graph_chain - {1} = {0, 2}"
    by (auto simp: live_iff graph_chain_def)
  with DeleteBlock_live(2) [OF graph_chain_ok(1,2) d]
  have l: "live g' = {0, 2}"
    by simp
  from DeleteBlock_links(3) [OF d, of 0]
  have s: "successors (block_heap g' 0) = [1]"
    by (simp add: graph_chain_def empty_block_def)
  from l s graph_chain_ok show ?thesis
    unfolding e by simp
qed

text \<open>Witness for C4 as amended: the same deletion on \<open>graph_chain\<close>.\<close>

theorem DeleteBlocks_linkage_witness:
  "table_ok graph_chain \<and> rpo_ok graph_chain \<and> mutually_linked graph_chain \<and>
   linkage_consistent graph_chain \<and>
   \<not> isl (DeleteBlocks [1] graph_chain) \<and>
   live (projr (DeleteBlocks [1] graph_chain)) = {0, 2} \<and>
   mutually_linked (projr (DeleteBlocks [1] graph_chain)) \<and>
   successors (block_heap (projr (DeleteBlocks [1] graph_chain)) 0) = [1] \<and>
   1 \<notin> set (predecessors (block_heap (projr (DeleteBlocks [1] graph_chain)) 2))"
proof -
  from graph_chain_delete_1 obtain g' where d: "DeleteBlock 1 graph_chain = Inr g'"
    by blast
  hence e: "DeleteBlocks [1] graph_chain = Inr g'"
    by simp
  have l: "live graph_chain - set [1] = {0, 2}"
    by (auto simp: live_iff graph_chain_def)
  have s: "successors (block_heap graph_chain 0) = [1]"
    by (simp add: graph_chain_def empty_block_def)
  from DeleteBlocks_linkage [OF graph_chain_ok(1,2) e] graph_chain_ok
  show ?thesis
    unfolding e using l s by simp
qed

section \<open>Dump after DeleteBlock\<close>

lemma dump_loop_result:
  "dump_loop g bs log =
     (if None \<in> set bs then Inl NullDereference
      else Inr (log @ map (\<lambda>x. BlockInfo (block_id (block_heap g (the x)))
                                   (loop_information (block_heap g (the x)))) bs))"
  by (induction g bs log rule: dump_loop.induct) auto

lemma DeleteBlock_table:
  assumes "DeleteBlock b g = Inr g'"
  shows "None \<in> set (blocks g')"
proof -
  from DeleteBlock_result [OF assms] have
    "nat (block_id (block_heap g b)) < length (blocks g)"
    "blocks g' = (blocks g)[nat (block_id (block_heap g b)) := None]"
    by blast+
  thus ?thesis by (metis set_update_memI)
qed

lemma DeleteBlocks_table:
  "bs \<noteq> [] \<Longrightarrow> DeleteBlocks bs g = Inr g' \<Longrightarrow> None \<in> set (blocks g')"
proof (induction bs arbitrary: g)
  case Nil
  then show ?case by simp
next
  case (Cons b bs)
  from Cons.prems(2) obtain g1 where
    d: "DeleteBlock b g = Inr g1" and ds: "DeleteBlocks bs g1 = Inr g'"
    by (auto split: sum.splits)
  show ?case
  proof (cases "bs = []")
    case True
    with ds d show ?thesis by (simp add: DeleteBlock_table)
  next
    case False
    from Cons.IH [OF False ds] show ?thesis .
  qed
qed

text \<open>
  Claim C10. After any non-empty sequence of \<^verbatim>\<open>DeleteBlock\<close> calls that return, \<^verbatim>\<open>Dump\<close>
  dereferences a null entry of the block table. In general \<^verbatim>\<open>Dump\<close> dereferences null
  on every graph whose block table has a null entry, and returns exactly on the graphs
  whose block table has none.
\<close>

theorem Dump_null_entry:
  "(bs \<noteq> [] \<and> DeleteBlocks bs g = Inr g' \<longrightarrow> Dump printer g' = Inl NullDereference) \<and>
   (None \<in> set (blocks g') \<longrightarrow> Dump printer g' = Inl NullDereference) \<and>
   ((\<exists>log. Dump printer g' = Inr log) \<longleftrightarrow> None \<notin> set (blocks g'))"
  using DeleteBlocks_table [of bs g g']
  by (auto simp: Dump_def dump_loop_result)

text \<open>
  Witness for C10: \<^verbatim>\<open>Dump\<close> returns on \<open>graph_chain\<close> and dereferences null after block 1
  has been deleted.
\<close>

theorem Dump_null_entry_witness:
  "Dump (\<lambda>g. ''graph'') graph_chain =
     Inr [BlockInfo 0 None, BlockInfo 1 None, BlockInfo 2 None, Printed ''graph''] \<and>
   \<not> isl (DeleteBlocks [1] graph_chain) \<and>
   Dump (\<lambda>g. ''graph'') (projr (DeleteBlocks [1] graph_chain)) = Inl NullDereference"
proof -
  from graph_chain_delete_1 obtain g' where d: "DeleteBlock 1 graph_chain = Inr g'"
    by blast
  hence e: "DeleteBlocks [1] graph_chain = Inr g'"
    by simp
  have p: "Dump (\<lambda>g. ''graph'') graph_chain =
     Inr [BlockInfo 0 None, BlockInfo 1 None, BlockInfo 2 None, Printed ''graph'']"
    by (simp add: Dump_def graph_chain_def empty_block_def)
  from Dump_null_entry [of "[1]" graph_chain g' "\<lambda>g. ''graph''"] e
  have "Dump (\<lambda>g. ''graph'') g' = Inl NullDereference"
    by simp
  with p show ?thesis
    unfolding e by simp
qed

section \<open>SplitCriticalEdgeAndUpdateLoopInformation: the claims\<close>

lemma nest_chain_outer:
  "(\<And>x. outer (H' x) = outer (H x)) \<Longrightarrow> nest_chain n H' l = nest_chain n H l"
  by (induction n arbitrary: l) (auto split: option.splits)

lemma AddToAll_frame:
  assumes "AddToAll l b g = Some g'"
  shows "block_heap g' = block_heap g \<and> insn_heap g' = insn_heap g \<and> blocks g' = blocks g \<and>
     reverse_post_order g' = reverse_post_order g \<and> linear_order g' = linear_order g \<and>
     arena_top g' = arena_top g"
proof (rule AddToAll.raw_induct [where P = "\<lambda>l b g g'.
     block_heap g' = block_heap g \<and> insn_heap g' = insn_heap g \<and> blocks g' = blocks g \<and>
     reverse_post_order g' = reverse_post_order g \<and> linear_order g' = linear_order g \<and>
     arena_top g' = arena_top g" and l = l and b = b and g = g and y = g'])
  show "AddToAll l b g = Some g'" by (rule assms)
next
  fix rec :: "lref \<Rightarrow> bref \<Rightarrow> HGraph_X86 \<Rightarrow> HGraph_X86 option" and l b g g'
  assume ih: "\<And>l b g g'. rec l b g = Some g' \<Longrightarrow>
     block_heap g' = block_heap g \<and> insn_heap g' = insn_heap g \<and> blocks g' = blocks g \<and>
     reverse_post_order g' = reverse_post_order g \<and> linear_order g' = linear_order g \<and>
     arena_top g' = arena_top g"
  assume eq: "(let g1 = update_loop l
        (\<lambda>x. x\<lparr>loop_blocks := insert (block_id (block_heap g b)) (loop_blocks x)\<rparr>) g
      in case outer (loop_heap g1 l) of None \<Rightarrow> Some g1 | Some p \<Rightarrow> rec p b g1) = Some g'"
  define g1 where "g1 = update_loop l
      (\<lambda>x. x\<lparr>loop_blocks := insert (block_id (block_heap g b)) (loop_blocks x)\<rparr>) g"
  have f1: "block_heap g1 = block_heap g \<and> insn_heap g1 = insn_heap g \<and> blocks g1 = blocks g \<and>
     reverse_post_order g1 = reverse_post_order g \<and> linear_order g1 = linear_order g \<and>
     arena_top g1 = arena_top g"
    by (simp add: g1_def update_loop_def)
  have r: "(case outer (loop_heap g1 l) of None \<Rightarrow> Some g1 | Some p \<Rightarrow> rec p b g1) = Some g'"
    using eq unfolding Let_def g1_def .
  show "block_heap g' = block_heap g \<and> insn_heap g' = insn_heap g \<and> blocks g' = blocks g \<and>
     reverse_post_order g' = reverse_post_order g \<and> linear_order g' = linear_order g \<and>
     arena_top g' = arena_top g"
  proof (cases "outer (loop_heap g1 l)")
    case None
    with r f1 show ?thesis by simp
  next
    case (Some p)
    with r have "rec p b g1 = Some g'" by simp
    from ih [OF this] f1 show ?thesis by simp
  qed
qed

lemma AddToAll_chain:
  "nest_chain n (loop_heap g) l = Some ls \<Longrightarrow>
   \<exists>g'. AddToAll l b g = Some g' \<and>
     loop_heap g' = (\<lambda>x. if x \<in> set ls
        then (loop_heap g x)\<lparr>loop_blocks := insert (block_id (block_heap g b)) (loop_blocks (loop_heap g x))\<rparr>
        else loop_heap g x)"
proof (induction n arbitrary: l g ls)
  case 0
  then show ?case by simp
next
  case (Suc n)
  define g1 where "g1 = update_loop l
      (\<lambda>x. x\<lparr>loop_blocks := insert (block_id (block_heap g b)) (loop_blocks x)\<rparr>) g"
  have o1: "\<And>x. outer (loop_heap g1 x) = outer (loop_heap g x)"
    by (simp add: g1_def update_loop_def)
  have b1: "block_heap g1 = block_heap g"
    by (simp add: g1_def update_loop_def)
  show ?case
  proof (cases "outer (loop_heap g l)")
    case None
    with Suc.prems have ls: "ls = [l]" by simp
    have "AddToAll l b g = Some g1"
      by (subst AddToAll.simps) (simp add: Let_def g1_def [symmetric] o1 None)
    moreover have "loop_heap g1 = (\<lambda>x. if x \<in> set ls
        then (loop_heap g x)\<lparr>loop_blocks := insert (block_id (block_heap g b)) (loop_blocks (loop_heap g x))\<rparr>
        else loop_heap g x)"
      by (rule ext) (simp add: ls g1_def update_loop_def)
    ultimately show ?thesis by blast
  next
    case (Some p)
    with Suc.prems obtain ls' where c: "nest_chain n (loop_heap g) p = Some ls'" and ls: "ls = l # ls'"
      by auto
    from c have "nest_chain n (loop_heap g1) p = Some ls'"
      by (simp add: nest_chain_outer [of "loop_heap g1" "loop_heap g", OF o1])
    from Suc.IH [OF this] obtain g' where
      r: "AddToAll p b g1 = Some g'" and
      h: "loop_heap g' = (\<lambda>x. if x \<in> set ls'
        then (loop_heap g1 x)\<lparr>loop_blocks := insert (block_id (block_heap g1 b)) (loop_blocks (loop_heap g1 x))\<rparr>
        else loop_heap g1 x)"
      by blast
    have "AddToAll l b g = Some g'"
      by (subst AddToAll.simps) (simp add: Let_def g1_def [symmetric] o1 Some r)
    moreover have "loop_heap g' = (\<lambda>x. if x \<in> set ls
        then (loop_heap g x)\<lparr>loop_blocks := insert (block_id (block_heap g b)) (loop_blocks (loop_heap g x))\<rparr>
        else loop_heap g x)"
      unfolding h b1 by (rule ext) (auto simp: ls g1_def update_loop_def)
    ultimately show ?thesis by blast
  qed
qed

lemma SplitCriticalEdge_result:
  assumes "from \<in> set (predecessors (block_heap g to))"
      and "to \<in> set (successors (block_heap g from))"
  shows "\<exists>g1. SplitCriticalEdge from to g = Inr g1 \<and>
     blocks g1 = blocks g @ [Some (arena_top g)] \<and> arena_top g1 = Suc (arena_top g) \<and>
     reverse_post_order g1 = reverse_post_order g \<and> linear_order g1 = linear_order g \<and>
     insn_heap g1 = insn_heap g \<and> loop_heap g1 = loop_heap g \<and>
     (to \<noteq> arena_top g \<longrightarrow>
        block_heap g1 to = (block_heap g to)
          \<lparr>predecessors := (predecessors (block_heap g to))
               [index_of from (predecessors (block_heap g to)) := arena_top g],
           successors := (if from = to
              then (successors (block_heap g to))
                     [index_of to (successors (block_heap g to)) := arena_top g]
              else successors (block_heap g to))\<rparr>) \<and>
     (from \<noteq> arena_top g \<longrightarrow> from \<noteq> to \<longrightarrow>
        block_heap g1 from = (block_heap g from)
          \<lparr>successors := (successors (block_heap g from))
               [index_of to (successors (block_heap g from)) := arena_top g]\<rparr>) \<and>
     (from \<noteq> arena_top g \<longrightarrow> to \<noteq> arena_top g \<longrightarrow>
        block_heap g1 (arena_top g) =
          \<lparr>block_id = int (length (blocks g)), successors = [to], predecessors = [from],
           instructions = [], phis = [], dominator = None, dominated_blocks = [],
           loop_information = None\<rparr>) \<and>
     (\<forall>x. x \<noteq> from \<and> x \<noteq> to \<and> x \<noteq> arena_top g \<longrightarrow> block_heap g1 x = block_heap g x)"
  using assms
  by (auto simp: SplitCriticalEdge_def IndexOfElement_def Let_def update_block_def)

lemma Split_unfold:
  assumes "from \<in> set (predecessors (block_heap g to))"
      and "to \<in> set (successors (block_heap g from))"
      and "SplitCriticalEdge from to g = Inr g1"
      and "to \<noteq> arena_top g"
  shows "SplitCriticalEdgeAndUpdateLoopInformation from to g =
     (case (if IsLoopHeader g1 to then loop_information (block_heap g1 from)
            else loop_information (block_heap g1 to)) of
        None \<Rightarrow> Some (Inr g1)
      | Some l \<Rightarrow> map_option Inr (AddToAll l (arena_top g) g1))"
proof -
  from SplitCriticalEdge_result [OF assms(1,2)] assms(3,4) have
    p: "predecessors (block_heap g1 to) = (predecessors (block_heap g to))
               [index_of from (predecessors (block_heap g to)) := arena_top g]"
    by auto
  from assms(1) have i: "index_of from (predecessors (block_heap g to)) < length (predecessors (block_heap g to))"
    by (rule index_of_less)
  show ?thesis
    using assms(1) i
    by (simp add: SplitCriticalEdgeAndUpdateLoopInformation_def IndexOfElement_def assms(3) p Let_def)
qed

lemma Split_returns_Inr:
  assumes "SplitCriticalEdgeAndUpdateLoopInformation from to g = Some (Inr g')"
  shows "from \<in> set (predecessors (block_heap g to)) \<and> to \<in> set (successors (block_heap g from))"
  using assms
  by (auto simp: SplitCriticalEdgeAndUpdateLoopInformation_def IndexOfElement_def
      SplitCriticalEdge_def split: if_splits sum.splits)

lemma Split_context_general:
  assumes "from \<in> set (predecessors (block_heap g to))"
      and "to \<in> set (successors (block_heap g from))"
      and "from < arena_top g" and "to < arena_top g"
  shows "let ctx = (if IsLoopHeader g to then loop_information (block_heap g from)
                    else loop_information (block_heap g to));
             splitter = arena_top g;
             splitter_id = int (length (blocks g))
         in (ctx = None \<longrightarrow>
               (\<exists>g'. SplitCriticalEdgeAndUpdateLoopInformation from to g = Some (Inr g') \<and>
                     block_id (block_heap g' splitter) = splitter_id \<and>
                     loop_heap g' = loop_heap g)) \<and>
            (\<forall>l n ls. ctx = Some l \<and> nest_chain n (loop_heap g) l = Some ls \<longrightarrow>
               (\<exists>g'. SplitCriticalEdgeAndUpdateLoopInformation from to g = Some (Inr g') \<and>
                     block_id (block_heap g' splitter) = splitter_id \<and>
                     (\<forall>x\<in>set ls. splitter_id \<in> loop_blocks (loop_heap g' x)) \<and>
                     (\<forall>x. loop_heap g' x =
                        (if x \<in> set ls
                         then (loop_heap g x)\<lparr>loop_blocks := insert splitter_id (loop_blocks (loop_heap g x))\<rparr>
                         else loop_heap g x))))"
proof -
  from assms(3,4) have ne: "from \<noteq> arena_top g" "to \<noteq> arena_top g" by simp_all
  from SplitCriticalEdge_result [OF assms(1,2)] ne obtain g1 where
    s: "SplitCriticalEdge from to g = Inr g1"
    and lh: "loop_heap g1 = loop_heap g"
    and li: "loop_information (block_heap g1 to) = loop_information (block_heap g to)"
       "loop_information (block_heap g1 from) = loop_information (block_heap g from)"
    and sp: "block_id (block_heap g1 (arena_top g)) = int (length (blocks g))"
    by (cases "from = to") auto
  have hd: "IsLoopHeader g1 to = IsLoopHeader g to"
    by (simp add: IsLoopHeader_def lh li cong: option.case_cong)
  note u = Split_unfold [OF assms(1,2) s ne(2), unfolded hd li]
  let ?ctx = "if IsLoopHeader g to then loop_information (block_heap g from)
                    else loop_information (block_heap g to)"
  have a: "?ctx = None \<longrightarrow>
               (\<exists>g'. SplitCriticalEdgeAndUpdateLoopInformation from to g = Some (Inr g') \<and>
                     block_id (block_heap g' (arena_top g)) = int (length (blocks g)) \<and>
                     loop_heap g' = loop_heap g)"
    using u lh sp by (auto split: if_splits)
  have b: "\<forall>l n ls. ?ctx = Some l \<and> nest_chain n (loop_heap g) l = Some ls \<longrightarrow>
               (\<exists>g'. SplitCriticalEdgeAndUpdateLoopInformation from to g = Some (Inr g') \<and>
                     block_id (block_heap g' (arena_top g)) = int (length (blocks g)) \<and>
                     (\<forall>x\<in>set ls. int (length (blocks g)) \<in> loop_blocks (loop_heap g' x)) \<and>
                     (\<forall>x. loop_heap g' x =
                        (if x \<in> set ls
                         then (loop_heap g x)\<lparr>loop_blocks := insert (int (length (blocks g))) (loop_blocks (loop_heap g x))\<rparr>
                         else loop_heap g x)))"
  proof (intro allI impI)
    fix l n ls assume h: "?ctx = Some l \<and> nest_chain n (loop_heap g) l = Some ls"
    hence c: "nest_chain n (loop_heap g1) l = Some ls" by (simp add: lh)
    from AddToAll_chain [OF c, of "arena_top g"] obtain g' where
      r: "AddToAll l (arena_top g) g1 = Some g'" and
      h': "loop_heap g' = (\<lambda>x. if x \<in> set ls
        then (loop_heap g1 x)\<lparr>loop_blocks := insert (block_id (block_heap g1 (arena_top g))) (loop_blocks (loop_heap g1 x))\<rparr>
        else loop_heap g1 x)"
      by blast
    from AddToAll_frame [OF r] have bh: "block_heap g' = block_heap g1" by simp
    have "SplitCriticalEdgeAndUpdateLoopInformation from to g = Some (Inr g')"
      using h r by (simp add: u)
    moreover have "block_id (block_heap g' (arena_top g)) = int (length (blocks g))"
      by (simp add: bh sp)
    moreover have "\<forall>x. loop_heap g' x =
                        (if x \<in> set ls
                         then (loop_heap g x)\<lparr>loop_blocks := insert (int (length (blocks g))) (loop_blocks (loop_heap g x))\<rparr>
                         else loop_heap g x)"
      by (simp add: h' sp lh)
    moreover from this have "\<forall>x\<in>set ls. int (length (blocks g)) \<in> loop_blocks (loop_heap g' x)"
      by simp
    ultimately show "\<exists>g'. SplitCriticalEdgeAndUpdateLoopInformation from to g = Some (Inr g') \<and>
                     block_id (block_heap g' (arena_top g)) = int (length (blocks g)) \<and>
                     (\<forall>x\<in>set ls. int (length (blocks g)) \<in> loop_blocks (loop_heap g' x)) \<and>
                     (\<forall>x. loop_heap g' x =
                        (if x \<in> set ls
                         then (loop_heap g x)\<lparr>loop_blocks := insert (int (length (blocks g))) (loop_blocks (loop_heap g x))\<rparr>
                         else loop_heap g x))"
      by blast
  qed
  from a b show ?thesis by (simp add: Let_def)
qed

lemma graph_loops_facts:
  "predecessors (block_heap graph_loops 12) = [11, 13]"
  "successors (block_heap graph_loops 13) = [12, 11]"
  "predecessors (block_heap graph_loops 11) = [10, 13]"
  "successors (block_heap graph_loops 10) = [11]"
  "arena_top graph_loops = 15"
  "blocks graph_loops = [Some 10, Some 11, Some 12, Some 13, Some 14]"
  "IsLoopHeader graph_loops 12" "IsLoopHeader graph_loops 11"
  "loop_information (block_heap graph_loops 13) = Some 21"
  "loop_information (block_heap graph_loops 10) = None"
  "nest_chain 2 (loop_heap graph_loops) 21 = Some [21, 20]"
  "loop_blocks (loop_heap graph_loops 20) = {1, 2, 3, 4}"
  "loop_blocks (loop_heap graph_loops 21) = {2, 3, 4}"
  by (simp_all add: graph_loops_def empty_block_def IsLoopHeader_def numeral_2_eq_2)

text \<open>
  Claim C1. For a split of the edge \<open>from \<rightarrow> to\<close> between two arena blocks, the loop
  context is the loop information of \<open>from\<close> if \<open>to\<close> is a loop header and that of \<open>to\<close>
  otherwise. If the context is null the call returns and no loop has changed. If it is
  a loop whose nesting chain ends, the call returns and the splitter (the new block,
  whose id is the old length of the block table) is a member of every loop of the chain;
  each loop of the chain has gained exactly this member, and no other loop has changed.
\<close>

theorem Split_loop_context:
  assumes "from \<in> set (predecessors (block_heap g to))"
      and "to \<in> set (successors (block_heap g from))"
      and "from < arena_top g" and "to < arena_top g"
  shows "let ctx = (if IsLoopHeader g to then loop_information (block_heap g from)
                    else loop_information (block_heap g to));
             splitter = arena_top g;
             splitter_id = int (length (blocks g))
         in (ctx = None \<longrightarrow>
               (\<exists>g'. SplitCriticalEdgeAndUpdateLoopInformation from to g = Some (Inr g') \<and>
                     block_id (block_heap g' splitter) = splitter_id \<and>
                     loop_heap g' = loop_heap g)) \<and>
            (\<forall>l n ls. ctx = Some l \<and> nest_chain n (loop_heap g) l = Some ls \<longrightarrow>
               (\<exists>g'. SplitCriticalEdgeAndUpdateLoopInformation from to g = Some (Inr g') \<and>
                     block_id (block_heap g' splitter) = splitter_id \<and>
                     (\<forall>x\<in>set ls. splitter_id \<in> loop_blocks (loop_heap g' x)) \<and>
                     (\<forall>x. loop_heap g' x =
                        (if x \<in> set ls
                         then (loop_heap g x)\<lparr>loop_blocks := insert splitter_id (loop_blocks (loop_heap g x))\<rparr>
                         else loop_heap g x))))"
  using Split_context_general [OF assms] .

text \<open>
  Witness for C1 on \<open>graph_loops\<close>: splitting the back edge \<open>13 \<rightarrow> 12\<close> into the inner
  header puts the splitter (id 5) into the inner loop 21 and the outer loop 20;
  splitting the edge \<open>10 \<rightarrow> 11\<close> from the pre-header, which is in no loop, changes no
  loop.
\<close>

theorem Split_loop_context_witness:
  "13 \<in> set (predecessors (block_heap graph_loops 12)) \<and>
   12 \<in> set (successors (block_heap graph_loops 13)) \<and>
   13 < arena_top graph_loops \<and> 12 < arena_top graph_loops \<and>
   IsLoopHeader graph_loops 12 \<and>
   loop_information (block_heap graph_loops 13) = Some 21 \<and>
   nest_chain 2 (loop_heap graph_loops) 21 = Some [21, 20] \<and>
   SplitCriticalEdgeAndUpdateLoopInformation 13 12 graph_loops \<noteq> None \<and>
   \<not> isl (the (SplitCriticalEdgeAndUpdateLoopInformation 13 12 graph_loops)) \<and>
   loop_blocks (loop_heap (projr (the (SplitCriticalEdgeAndUpdateLoopInformation 13 12 graph_loops))) 21)
     = insert 5 {2, 3, 4} \<and>
   loop_blocks (loop_heap (projr (the (SplitCriticalEdgeAndUpdateLoopInformation 13 12 graph_loops))) 20)
     = insert 5 {1, 2, 3, 4} \<and>
   10 \<in> set (predecessors (block_heap graph_loops 11)) \<and>
   11 \<in> set (successors (block_heap graph_loops 10)) \<and>
   IsLoopHeader graph_loops 11 \<and>
   loop_information (block_heap graph_loops 10) = None \<and>
   SplitCriticalEdgeAndUpdateLoopInformation 10 11 graph_loops \<noteq> None \<and>
   \<not> isl (the (SplitCriticalEdgeAndUpdateLoopInformation 10 11 graph_loops)) \<and>
   loop_heap (projr (the (SplitCriticalEdgeAndUpdateLoopInformation 10 11 graph_loops)))
     = loop_heap graph_loops"
proof -
  note f = graph_loops_facts
  have h: "13 \<in> set (predecessors (block_heap graph_loops 12))"
    "12 \<in> set (successors (block_heap graph_loops 13))"
    "13 < arena_top graph_loops" "12 < arena_top graph_loops"
    unfolding f by simp_all
  have k: "10 \<in> set (predecessors (block_heap graph_loops 11))"
    "11 \<in> set (successors (block_heap graph_loops 10))"
    "10 < arena_top graph_loops" "11 < arena_top graph_loops"
    unfolding f by simp_all
  have ctx: "(if IsLoopHeader graph_loops 12 then loop_information (block_heap graph_loops 13)
      else loop_information (block_heap graph_loops 12)) = Some 21"
    using f(7) unfolding f(9) by simp
  have ctx0: "(if IsLoopHeader graph_loops 11 then loop_information (block_heap graph_loops 10)
      else loop_information (block_heap graph_loops 11)) = None"
    using f(8) unfolding f(10) by simp
  note t = Split_loop_context [OF h, unfolded Let_def ctx]
  from t have "\<forall>l n ls. Some 21 = Some l \<and> nest_chain n (loop_heap graph_loops) l = Some ls \<longrightarrow>
      (\<exists>g'. SplitCriticalEdgeAndUpdateLoopInformation 13 12 graph_loops = Some (Inr g') \<and>
                     block_id (block_heap g' (arena_top graph_loops)) = int (length (blocks graph_loops)) \<and>
                     (\<forall>x\<in>set ls. int (length (blocks graph_loops)) \<in> loop_blocks (loop_heap g' x)) \<and>
                     (\<forall>x. loop_heap g' x =
                        (if x \<in> set ls
                         then (loop_heap graph_loops x)\<lparr>loop_blocks := insert (int (length (blocks graph_loops))) (loop_blocks (loop_heap graph_loops x))\<rparr>
                         else loop_heap graph_loops x)))"
    by (rule conjunct2)
  from this [rule_format, of 21 2 "[21, 20]"] f(11) obtain g' where
    a: "SplitCriticalEdgeAndUpdateLoopInformation 13 12 graph_loops = Some (Inr g')"
    and b: "\<forall>x. loop_heap g' x =
         (if x \<in> set [21, 20]
          then (loop_heap graph_loops x)\<lparr>loop_blocks := insert (int (length (blocks graph_loops))) (loop_blocks (loop_heap graph_loops x))\<rparr>
          else loop_heap graph_loops x)"
    by blast
  note u = Split_loop_context [OF k, unfolded Let_def ctx0]
  from u have "(None :: lref option) = None \<longrightarrow>
               (\<exists>g'. SplitCriticalEdgeAndUpdateLoopInformation 10 11 graph_loops = Some (Inr g') \<and>
                     block_id (block_heap g' (arena_top graph_loops)) = int (length (blocks graph_loops)) \<and>
                     loop_heap g' = loop_heap graph_loops)"
    by (rule conjunct1)
  then obtain g'' where
    c: "SplitCriticalEdgeAndUpdateLoopInformation 10 11 graph_loops = Some (Inr g'')"
    and d: "loop_heap g'' = loop_heap graph_loops"
    by blast
  have len: "int (length (blocks graph_loops)) = 5"
    unfolding f by simp
  from b [rule_format, of 21] have e1: "loop_blocks (loop_heap g' 21) = insert 5 {2, 3, 4}"
    unfolding len by (simp add: f(13))
  from b [rule_format, of 20] have e0: "loop_blocks (loop_heap g' 20) = insert 5 {1, 2, 3, 4}"
    unfolding len by (simp add: f(12))
  from h k e1 e0 d f(7,8,9,10,11) show ?thesis
    unfolding a c by simp
qed

lemma Split_slot_of_result:
  assumes "SplitCriticalEdgeAndUpdateLoopInformation from to g = Some (Inr g')"
      and "to < arena_top g"
  shows "let ps = predecessors (block_heap g to); i = index_of from ps
         in from \<in> set ps \<and> i < length ps \<and> ps ! i = from \<and>
            predecessors (block_heap g' to) = ps[i := arena_top g] \<and>
            predecessors (block_heap g' to) ! i = arena_top g \<and>
            (\<forall>j<length ps. j \<noteq> i \<longrightarrow> predecessors (block_heap g' to) ! j = ps ! j) \<and>
            blocks g' = blocks g @ [Some (arena_top g)]"
proof -
  note m = Split_returns_Inr [OF assms(1)]
  from m have m1: "from \<in> set (predecessors (block_heap g to))"
    and m2: "to \<in> set (successors (block_heap g from))" by blast+
  from assms(2) have ne: "to \<noteq> arena_top g" by simp
  from SplitCriticalEdge_result [OF m1 m2] ne obtain g1 where
    s: "SplitCriticalEdge from to g = Inr g1"
    and b: "blocks g1 = blocks g @ [Some (arena_top g)]"
    and p: "predecessors (block_heap g1 to) = (predecessors (block_heap g to))
               [index_of from (predecessors (block_heap g to)) := arena_top g]"
    by auto
  have f: "block_heap g' = block_heap g1 \<and> blocks g' = blocks g1"
    using assms(1) AddToAll_frame
    unfolding Split_unfold [OF m1 m2 s ne]
    by (auto split: option.splits)
  from m1 have i: "index_of from (predecessors (block_heap g to)) < length (predecessors (block_heap g to))"
    "predecessors (block_heap g to) ! index_of from (predecessors (block_heap g to)) = from"
    by (simp_all add: index_of_less index_of_nth)
  from m1 i f b p show ?thesis
    by (simp add: Let_def)
qed

text \<open>
  Claim C6. For a split of the edge \<open>from \<rightarrow> to\<close> between two arena blocks, where the
  nesting chain of the loop context (if there is one) ends: the call returns, and the
  predecessor sequence of \<open>to\<close> is the old one with the splitter (the new block) in the
  slot that \<open>from\<close> held, which is the pre-recorded index; every other slot holds what
  it held.
\<close>

theorem Split_predecessor_slot:
  assumes "from \<in> set (predecessors (block_heap g to))"
      and "to \<in> set (successors (block_heap g from))"
      and "from < arena_top g" and "to < arena_top g"
      and "\<forall>l. (if IsLoopHeader g to then loop_information (block_heap g from)
                else loop_information (block_heap g to)) = Some l \<longrightarrow>
               nest_chain n (loop_heap g) l = Some ls"
  shows "\<exists>g'. SplitCriticalEdgeAndUpdateLoopInformation from to g = Some (Inr g') \<and>
           (let ps = predecessors (block_heap g to); i = index_of from ps
            in i < length ps \<and> ps ! i = from \<and>
               predecessors (block_heap g' to) = ps[i := arena_top g] \<and>
               predecessors (block_heap g' to) ! i = arena_top g \<and>
               (\<forall>j<length ps. j \<noteq> i \<longrightarrow> predecessors (block_heap g' to) ! j = ps ! j) \<and>
               blocks g' = blocks g @ [Some (arena_top g)])"
proof -
  let ?ctx = "if IsLoopHeader g to then loop_information (block_heap g from)
                else loop_information (block_heap g to)"
  note t = Split_context_general [OF assms(1-4), unfolded Let_def]
  have "\<exists>g'. SplitCriticalEdgeAndUpdateLoopInformation from to g = Some (Inr g')"
  proof (cases ?ctx)
    case None
    with t show ?thesis by blast
  next
    case (Some l)
    with assms(5) have "nest_chain n (loop_heap g) l = Some ls" by simp
    with t Some show ?thesis by blast
  qed
  then obtain g' where r: "SplitCriticalEdgeAndUpdateLoopInformation from to g = Some (Inr g')"
    by blast
  from Split_slot_of_result [OF r assms(4)] r show ?thesis
    by (auto simp: Let_def)
qed

text \<open>
  Witness for C6 on \<open>graph_loops\<close>: splitting \<open>13 \<rightarrow> 12\<close>, whose loop context is the inner
  loop 21 with the chain \<open>[21, 20]\<close>, returns and turns the predecessors \<open>[11, 13]\<close> of
  block 12 into \<open>[11, 15]\<close>.
\<close>

theorem Split_predecessor_slot_witness:
  "13 \<in> set (predecessors (block_heap graph_loops 12)) \<and>
   12 \<in> set (successors (block_heap graph_loops 13)) \<and>
   13 < arena_top graph_loops \<and> 12 < arena_top graph_loops \<and>
   IsLoopHeader graph_loops 12 \<and> loop_information (block_heap graph_loops 13) = Some 21 \<and>
   nest_chain 2 (loop_heap graph_loops) 21 = Some [21, 20] \<and>
   SplitCriticalEdgeAndUpdateLoopInformation 13 12 graph_loops \<noteq> None \<and>
   \<not> isl (the (SplitCriticalEdgeAndUpdateLoopInformation 13 12 graph_loops)) \<and>
   predecessors (block_heap graph_loops 12) = [11, 13] \<and>
   predecessors
     (block_heap (projr (the (SplitCriticalEdgeAndUpdateLoopInformation 13 12 graph_loops))) 12)
     = [11, 15] \<and>
   blocks (projr (the (SplitCriticalEdgeAndUpdateLoopInformation 13 12 graph_loops)))
     = [Some 10, Some 11, Some 12, Some 13, Some 14, Some 15]"
proof -
  note f = graph_loops_facts
  have h: "13 \<in> set (predecessors (block_heap graph_loops 12))"
    "12 \<in> set (successors (block_heap graph_loops 13))"
    "13 < arena_top graph_loops" "12 < arena_top graph_loops"
    unfolding f by simp_all
  have ctx: "(if IsLoopHeader graph_loops 12 then loop_information (block_heap graph_loops 13)
      else loop_information (block_heap graph_loops 12)) = Some 21"
    using f(7) unfolding f(9) by simp
  have c: "\<forall>l. (if IsLoopHeader graph_loops 12 then loop_information (block_heap graph_loops 13)
      else loop_information (block_heap graph_loops 12)) = Some l \<longrightarrow>
      nest_chain 2 (loop_heap graph_loops) l = Some [21, 20]"
    unfolding ctx using f(11) by simp
  from Split_predecessor_slot [OF h c] obtain g' where
    a: "SplitCriticalEdgeAndUpdateLoopInformation 13 12 graph_loops = Some (Inr g')"
    and p: "predecessors (block_heap g' 12) =
       (predecessors (block_heap graph_loops 12))
         [index_of 13 (predecessors (block_heap graph_loops 12)) := arena_top graph_loops]"
      "blocks g' = blocks graph_loops @ [Some (arena_top graph_loops)]"
    unfolding Let_def by blast
  from p have "predecessors (block_heap g' 12) = [11, 15]"
    "blocks g' = [Some 10, Some 11, Some 12, Some 13, Some 14, Some 15]"
    unfolding f by simp_all
  with h f(1,7,9,11) show ?thesis
    unfolding a by simp
qed

section \<open>MovePhi and MoveInstructionBefore: the claims\<close>

lemma insert_before_split:
  "c \<in> set xs \<Longrightarrow>
   \<exists>ys zs. xs = ys @ c # zs \<and> c \<notin> set ys \<and> insert_before i c xs = ys @ i # c # zs"
proof (induction xs)
  case Nil
  then show ?case by simp
next
  case (Cons x xs)
  show ?case
  proof (cases "x = c")
    case True
    then show ?thesis by (intro exI [of _ "[]"] exI [of _ xs]) simp
  next
    case False
    with Cons obtain ys zs where "xs = ys @ c # zs" "c \<notin> set ys" "insert_before i c xs = ys @ i # c # zs"
      by auto
    with False show ?thesis
      by (intro exI [of _ "x # ys"] exI [of _ zs]) simp
  qed
qed

lemma MoveInstructionBefore_result:
  assumes "block (insn_heap g i) = Some X" and "block (insn_heap g c) = Some Y" and "X \<noteq> Y"
      and "\<not> is_phi (insn_heap g i)" and "\<not> is_control_flow (insn_heap g i)"
      and "insn_id (insn_heap g i) \<noteq> - 1"
      and "\<not> is_phi (insn_heap g c)" and "insn_id (insn_heap g c) \<noteq> - 1"
      and "c \<in> set (instructions (block_heap g Y))"
  shows "\<exists>g'. MoveInstructionBefore (Some i) (Some c) g = Inr g' \<and>
     insn_heap g' = (insn_heap g)(i := (insn_heap g i)\<lparr>block := Some Y\<rparr>) \<and>
     block_heap g' = (block_heap g)
       (X := (block_heap g X)\<lparr>instructions := remove1 i (instructions (block_heap g X))\<rparr>,
        Y := (block_heap g Y)\<lparr>instructions := insert_before i c (instructions (block_heap g Y))\<rparr>) \<and>
     same_frame g g'"
proof -
  from assms(1,2,3) have ne: "i \<noteq> c" by auto
  show ?thesis
    using assms ne
    by (auto simp: MoveInstructionBefore_def Let_def RemoveInstruction_def
        InsertInstructionBefore_def update_block_def update_insn_def same_frame_def)
qed

lemma graph_XY_facts:
  "block (insn_heap graph_XY 11) = Some 7" "block (insn_heap graph_XY 12) = Some 7"
  "block (insn_heap graph_XY 13) = Some 8" "block (insn_heap graph_XY 14) = Some 8"
  "block (insn_heap graph_XY 15) = Some 7" "block (insn_heap graph_XY 16) = Some 9"
  "block (insn_heap graph_XY 17) = None"
  "is_phi (insn_heap graph_XY 15)" "is_control_flow (insn_heap graph_XY 16)"
  "insn_id (insn_heap graph_XY 17) = - 1"
  "\<not> is_phi (insn_heap graph_XY 11)" "\<not> is_control_flow (insn_heap graph_XY 11)"
  "insn_id (insn_heap graph_XY 11) = 11"
  "\<not> is_phi (insn_heap graph_XY 14)" "insn_id (insn_heap graph_XY 14) = 14"
  "instructions (block_heap graph_XY 7) = [11, 12]"
  "instructions (block_heap graph_XY 8) = [13, 14]"
  "phis (block_heap graph_XY 7) = [15]" "phis (block_heap graph_XY 8) = []"
  "uses (insn_heap graph_XY 11) = [(12, 0)]" "uses (insn_heap graph_XY 15) = [(13, 0)]"
  "insn_id (insn_heap graph_XY 15) = 15"
  by (simp_all add: graph_XY_def empty_block_def plain_insn_def)

text \<open>
  Claim C7. Let \<open>I\<close> be no phi and no control flow, \<open>C\<close> no phi, both with an identity
  number, \<open>I\<close> in block \<open>X\<close> and \<open>C\<close> in the sequence of a different block \<open>Y\<close>. Then
  \<^verbatim>\<open>MoveInstructionBefore(I, C)\<close> returns; in the sequence of \<open>Y\<close> the instruction \<open>I\<close>
  stands immediately before \<open>C\<close> and nothing else has changed there; the sequence of \<open>X\<close>
  has lost \<open>I\<close>; the owning block of \<open>I\<close> is \<open>Y\<close>; and no use-list, environment-use list,
  operand list or identity number has changed. In particular \<open>X = [a, b]\<close> and
  \<open>Y = [c, d]\<close> become \<open>X = [b]\<close> and \<open>Y = [c, a, d]\<close> when \<open>a\<close> is moved before \<open>d\<close>.
\<close>

theorem MoveInstructionBefore_moves:
  assumes "block (insn_heap g i) = Some X" and "block (insn_heap g c) = Some Y" and "X \<noteq> Y"
      and "\<not> is_phi (insn_heap g i)" and "\<not> is_control_flow (insn_heap g i)"
      and "insn_id (insn_heap g i) \<noteq> - 1"
      and "\<not> is_phi (insn_heap g c)" and "insn_id (insn_heap g c) \<noteq> - 1"
      and "c \<in> set (instructions (block_heap g Y))"
  shows "\<exists>g'. MoveInstructionBefore (Some i) (Some c) g = Inr g' \<and>
     (\<exists>ys zs. instructions (block_heap g Y) = ys @ c # zs \<and> c \<notin> set ys \<and>
              instructions (block_heap g' Y) = ys @ i # c # zs) \<and>
     instructions (block_heap g' X) = remove1 i (instructions (block_heap g X)) \<and>
     (distinct (instructions (block_heap g X)) \<longrightarrow> i \<notin> set (instructions (block_heap g' X))) \<and>
     block (insn_heap g' i) = Some Y \<and>
     (\<forall>j. uses (insn_heap g' j) = uses (insn_heap g j) \<and>
          env_uses (insn_heap g' j) = env_uses (insn_heap g j) \<and>
          inputs (insn_heap g' j) = inputs (insn_heap g j) \<and>
          insn_id (insn_heap g' j) = insn_id (insn_heap g j)) \<and>
     (\<forall>a b c0. instructions (block_heap g X) = [a, b] \<and> i = a \<and>
          instructions (block_heap g Y) = [c0, c] \<and> c0 \<noteq> c \<longrightarrow>
          instructions (block_heap g' X) = [b] \<and> instructions (block_heap g' Y) = [c0, a, c])"
proof -
  from MoveInstructionBefore_result [OF assms] obtain g' where
    r: "MoveInstructionBefore (Some i) (Some c) g = Inr g'"
    and ih: "insn_heap g' = (insn_heap g)(i := (insn_heap g i)\<lparr>block := Some Y\<rparr>)"
    and bh: "block_heap g' = (block_heap g)
       (X := (block_heap g X)\<lparr>instructions := remove1 i (instructions (block_heap g X))\<rparr>,
        Y := (block_heap g Y)\<lparr>instructions := insert_before i c (instructions (block_heap g Y))\<rparr>)"
    by blast
  have y: "instructions (block_heap g' Y) = insert_before i c (instructions (block_heap g Y))"
    and x: "instructions (block_heap g' X) = remove1 i (instructions (block_heap g X))"
    using assms(3) by (simp_all add: bh)
  from insert_before_split [OF assms(9), of i] have
    a: "\<exists>ys zs. instructions (block_heap g Y) = ys @ c # zs \<and> c \<notin> set ys \<and>
              instructions (block_heap g' Y) = ys @ i # c # zs"
    by (simp add: y)
  have b: "distinct (instructions (block_heap g X)) \<longrightarrow> i \<notin> set (instructions (block_heap g' X))"
    by (simp add: x)
  have c: "block (insn_heap g' i) = Some Y"
    by (simp add: ih)
  have d: "\<forall>j. uses (insn_heap g' j) = uses (insn_heap g j) \<and>
          env_uses (insn_heap g' j) = env_uses (insn_heap g j) \<and>
          inputs (insn_heap g' j) = inputs (insn_heap g j) \<and>
          insn_id (insn_heap g' j) = insn_id (insn_heap g j)"
    by (simp add: ih)
  have e: "\<forall>a b c0. instructions (block_heap g X) = [a, b] \<and> i = a \<and>
          instructions (block_heap g Y) = [c0, c] \<and> c0 \<noteq> c \<longrightarrow>
          instructions (block_heap g' X) = [b] \<and> instructions (block_heap g' Y) = [c0, a, c]"
    by (simp add: x y)
  from r a x b c d e show ?thesis by blast
qed

text \<open>
  Witness for C7 on \<open>graph_XY\<close>: moving \<open>a = 11\<close> from block \<open>X = [11, 12]\<close> before
  \<open>d = 14\<close> of block \<open>Y = [13, 14]\<close> gives \<open>X = [12]\<close> and \<open>Y = [13, 11, 14]\<close>.
\<close>

theorem MoveInstructionBefore_moves_witness:
  "block (insn_heap graph_XY 11) = Some 7 \<and> block (insn_heap graph_XY 14) = Some 8 \<and>
   \<not> is_phi (insn_heap graph_XY 11) \<and> \<not> is_control_flow (insn_heap graph_XY 11) \<and>
   insn_id (insn_heap graph_XY 11) \<noteq> - 1 \<and>
   \<not> is_phi (insn_heap graph_XY 14) \<and> insn_id (insn_heap graph_XY 14) \<noteq> - 1 \<and>
   14 \<in> set (instructions (block_heap graph_XY 8)) \<and>
   \<not> isl (MoveInstructionBefore (Some 11) (Some 14) graph_XY) \<and>
   instructions (block_heap (projr (MoveInstructionBefore (Some 11) (Some 14) graph_XY)) 7) = [12] \<and>
   instructions (block_heap (projr (MoveInstructionBefore (Some 11) (Some 14) graph_XY)) 8) = [13, 11, 14] \<and>
   block (insn_heap (projr (MoveInstructionBefore (Some 11) (Some 14) graph_XY)) 11) = Some 8 \<and>
   uses (insn_heap (projr (MoveInstructionBefore (Some 11) (Some 14) graph_XY)) 11) = [(12, 0)]"
proof -
  note f = graph_XY_facts
  have h: "block (insn_heap graph_XY 11) = Some 7" "block (insn_heap graph_XY 14) = Some 8"
    "(7::nat) \<noteq> 8"
    "\<not> is_phi (insn_heap graph_XY 11)" "\<not> is_control_flow (insn_heap graph_XY 11)"
    "insn_id (insn_heap graph_XY 11) \<noteq> - 1"
    "\<not> is_phi (insn_heap graph_XY 14)" "insn_id (insn_heap graph_XY 14) \<noteq> - 1"
    "14 \<in> set (instructions (block_heap graph_XY 8))"
    using f by simp_all
  from MoveInstructionBefore_moves [OF h] obtain g' ys zs where
    r: "MoveInstructionBefore (Some 11) (Some 14) graph_XY = Inr g'"
    and y: "instructions (block_heap graph_XY 8) = ys @ 14 # zs" "14 \<notin> set ys"
       "instructions (block_heap g' 8) = ys @ 11 # 14 # zs"
    and x: "instructions (block_heap g' 7) = remove1 11 (instructions (block_heap graph_XY 7))"
    and b: "block (insn_heap g' 11) = Some 8"
    and u: "uses (insn_heap g' 11) = uses (insn_heap graph_XY 11)"
    by blast
  from y(1,2) have "ys = [13] \<and> zs = []"
    unfolding f by (cases ys; cases "tl ys") auto
  with y(3) have y': "instructions (block_heap g' 8) = [13, 11, 14]" by simp
  from x have x': "instructions (block_heap g' 7) = [12]"
    unfolding f by simp
  from h y' x' b u f(20) show ?thesis
    unfolding r by simp
qed

text \<open>
  Claim C8. \<^verbatim>\<open>MovePhi(P, T)\<close> returns the graph unchanged when \<open>T\<close> is the block of \<open>P\<close>.
  When \<open>P\<close> is in another block \<open>F\<close>, it returns a graph that differs in exactly three
  places: the owning block of \<open>P\<close> is \<open>T\<close>, the phi sequence of \<open>F\<close> has lost \<open>P\<close>, and the
  phi sequence of \<open>T\<close> ends with \<open>P\<close>. The identity number, operands, use-list and
  environment-use list of \<open>P\<close> are what they were.
\<close>

theorem MovePhi_frame:
  "(block (insn_heap g p) = Some t \<longrightarrow> MovePhi (Some p) t g = Inr g) \<and>
   (\<forall>f. block (insn_heap g p) = Some f \<and> f \<noteq> t \<longrightarrow>
      (\<exists>g'. MovePhi (Some p) t g = Inr g' \<and>
         insn_heap g' = (insn_heap g)(p := (insn_heap g p)\<lparr>block := Some t\<rparr>) \<and>
         insn_id (insn_heap g' p) = insn_id (insn_heap g p) \<and>
         inputs (insn_heap g' p) = inputs (insn_heap g p) \<and>
         uses (insn_heap g' p) = uses (insn_heap g p) \<and>
         env_uses (insn_heap g' p) = env_uses (insn_heap g p) \<and>
         block (insn_heap g' p) = Some t \<and>
         block_heap g' = (block_heap g)
           (f := (block_heap g f)\<lparr>phis := remove1 p (phis (block_heap g f))\<rparr>,
            t := (block_heap g t)\<lparr>phis := phis (block_heap g t) @ [p]\<rparr>) \<and>
         (distinct (phis (block_heap g f)) \<longrightarrow> p \<notin> set (phis (block_heap g' f))) \<and>
         p \<in> set (phis (block_heap g' t)) \<and>
         same_frame g g'))"
  by (auto simp: MovePhi_def Let_def update_block_def update_insn_def same_frame_def)

text \<open>
  Witness for C8 on \<open>graph_XY\<close>: moving the phi 15 to its own block 7 and to block 8.
\<close>

theorem MovePhi_frame_witness:
  "block (insn_heap graph_XY 15) = Some 7 \<and>
   MovePhi (Some 15) 7 graph_XY = Inr graph_XY \<and>
   \<not> isl (MovePhi (Some 15) 8 graph_XY) \<and>
   block (insn_heap (projr (MovePhi (Some 15) 8 graph_XY)) 15) = Some 8 \<and>
   insn_id (insn_heap (projr (MovePhi (Some 15) 8 graph_XY)) 15) = 15 \<and>
   uses (insn_heap (projr (MovePhi (Some 15) 8 graph_XY)) 15) = [(13, 0)] \<and>
   phis (block_heap (projr (MovePhi (Some 15) 8 graph_XY)) 7) = [] \<and>
   phis (block_heap (projr (MovePhi (Some 15) 8 graph_XY)) 8) = [15]"
proof -
  note f = graph_XY_facts
  note t = MovePhi_frame [of graph_XY 15 7]
  from t f(5) have a: "MovePhi (Some 15) 7 graph_XY = Inr graph_XY" by blast
  note u = MovePhi_frame [of graph_XY 15 8, THEN conjunct2, rule_format, of 7]
  from u f(5) obtain g' where
    r: "MovePhi (Some 15) 8 graph_XY = Inr g'"
    and i: "insn_id (insn_heap g' 15) = insn_id (insn_heap graph_XY 15)"
       "uses (insn_heap g' 15) = uses (insn_heap graph_XY 15)"
       "block (insn_heap g' 15) = Some 8"
    and b: "block_heap g' = (block_heap graph_XY)
           (7 := (block_heap graph_XY 7)\<lparr>phis := remove1 15 (phis (block_heap graph_XY 7))\<rparr>,
            8 := (block_heap graph_XY 8)\<lparr>phis := phis (block_heap graph_XY 8) @ [15]\<rparr>)"
    by auto
  have p: "phis (block_heap g' 7) = []" "phis (block_heap g' 8) = [15]"
    unfolding b f by simp_all
  from a i p f(5,21,22) show ?thesis
    unfolding r by simp
qed

text \<open>
  The checks of \<^verbatim>\<open>MoveInstructionBefore\<close> on a malformed input. Every malformed input
  ends in an assertion failure, except when the instruction to move has no owning block
  while the cursor is there, is no phi and has a block: then the checks of lines
  152 to 157 pass and line 160 dereferences the null block pointer.
\<close>

lemma MoveInstructionBefore_asserts:
  assumes "malformed_move g instr cursor"
      and "\<not> (case instr of None \<Rightarrow> False
              | Some i \<Rightarrow> block (insn_heap g i) = None \<and>
                  (case cursor of None \<Rightarrow> False
                   | Some c \<Rightarrow> \<not> is_phi (insn_heap g c) \<and> block (insn_heap g c) \<noteq> None))"
  shows "MoveInstructionBefore instr cursor g = Inl AssertionFailure"
  using assms
  by (auto simp: malformed_move_def MoveInstructionBefore_def Let_def RemoveInstruction_def
      update_insn_def update_block_def split: option.splits)

lemma MoveInstructionBefore_null_block:
  assumes "block (insn_heap g i) = None"
      and "\<not> is_phi (insn_heap g c)" and "block (insn_heap g c) \<noteq> None"
  shows "MoveInstructionBefore (Some i) (Some c) g = Inl NullDereference"
  using assms
  by (auto simp: MoveInstructionBefore_def Let_def)

text \<open>
  Claim C9. The claim asks for an assertion failure on an instruction whose identity
  number is unassigned, and the source has the check (\<^verbatim>\<open>DCHECK_NE(instr->GetId(), -1)\<close>,
  line 163), but behind \<^verbatim>\<open>from_block->RemoveInstruction(instr, false)\<close> of line 160.
  Instruction 17 of \<open>graph_XY\<close> is under construction: no identity number, no owning
  block. Moving it before instruction 14, a well-formed cursor, does not reach the
  assertion: the call dereferences the null block pointer.
\<close>

theorem MoveInstructionBefore_unassigned_identity:
  "insn_id (insn_heap graph_XY 17) = - 1 \<and> block (insn_heap graph_XY 17) = None \<and>
   \<not> is_phi (insn_heap graph_XY 14) \<and> insn_id (insn_heap graph_XY 14) = 14 \<and>
   block (insn_heap graph_XY 14) = Some 8 \<and>
   malformed_move graph_XY (Some 17) (Some 14) \<and>
   MoveInstructionBefore (Some 17) (Some 14) graph_XY = Inl NullDereference"
  using graph_XY_facts
  by (simp add: malformed_move_def MoveInstructionBefore_def Let_def)

end
